theory Spec2Isabelle
  imports Main "HOL-Library.Char_ord" "HOL-Library.List_Lexorder"
begin

section \<open>The scroll window of MdsBrowser\<close>

text \<open>
  MdsBrowser.tsx, lines 279-288. The component computes, on every render,
  \<^verbatim>\<open>
  const availableHeight = Math.max(5, terminalHeight - 10);
  const startIdx = Math.max(0,
    Math.min(activeIndex - Math.floor(availableHeight / 2),
             files.length - availableHeight));
  const endIdx = startIdx + availableHeight;
  const visibleFiles = files.slice(startIdx, endIdx);
  \<close>
  All quantities are integral JavaScript numbers, modelled as \<open>int\<close>;
  \<open>Math.floor (h / 2)\<close> is \<open>h div 2\<close> (floor division on \<open>int\<close>).
\<close>

definition availableHeight :: "int \<Rightarrow> int" where
  "availableHeight terminalHeight = max 5 (terminalHeight - 10)"

definition startIdx :: "int \<Rightarrow> int \<Rightarrow> int \<Rightarrow> int" where
  "startIdx activeIndex height filesLength =
     max 0 (min (activeIndex - height div 2) (filesLength - height))"

definition endIdx :: "int \<Rightarrow> int \<Rightarrow> int \<Rightarrow> int" where
  "endIdx activeIndex height filesLength =
     startIdx activeIndex height filesLength + height"

text \<open>
  \<open>Array.prototype.slice (start, end)\<close> for integral arguments: a negative
  index counts from the end, both indices are clamped to the array, and an
  empty range gives the empty array.
\<close>

definition slice :: "'a list \<Rightarrow> int \<Rightarrow> int \<Rightarrow> 'a list" where
  "slice xs start end' =
     (let len = int (length xs);
          k = (if start < 0 then max (len + start) 0 else min start len);
          final = (if end' < 0 then max (len + end') 0 else min end' len)
      in take (nat (max (final - k) 0)) (drop (nat k) xs))"

definition visibleFiles :: "'a list \<Rightarrow> int \<Rightarrow> int \<Rightarrow> 'a list" where
  "visibleFiles files activeIndex height =
     slice files (startIdx activeIndex height (int (length files)))
                 (endIdx activeIndex height (int (length files)))"

text \<open>
  The formula of the specification, section 4.3, written from its words:
  \<open>start = clamp (cursorIndex - floor (viewportHeight / 2), 0,
  max (0, listLength - viewportHeight))\<close> and \<open>end = start + viewportHeight\<close>.
\<close>

definition clamp :: "int \<Rightarrow> int \<Rightarrow> int \<Rightarrow> int" where
  "clamp x lo hi = max lo (min x hi)"

definition computeScrollWindow_spec :: "int \<Rightarrow> int \<Rightarrow> int \<Rightarrow> int \<times> int" where
  "computeScrollWindow_spec viewportHeight cursorIndex listLength =
     (let start = clamp (cursorIndex - viewportHeight div 2) 0
                        (max 0 (listLength - viewportHeight))
      in (start, start + viewportHeight))"


section \<open>The Entry Resolver of MdsBrowser\<close>

text \<open>
  MdsBrowser.tsx, lines 32-36: one browsable item. The field \<open>id\<close> is optional
  and only set for Drive files.
\<close>

record FileEntry =
  path :: string
  type' :: string
  id' :: "string option"

text \<open>
  The parts of \<open>Config\<close> the component reads: \<open>getGeminiMdFilePaths ()\<close> and
  \<open>getAgentRegistry ()?.getAllDefinitions ()\<close>, either of which may be undefined
  (\<open>None\<close>); a definition's \<open>metadata\<close> and its \<open>filePath\<close> are optional too.
\<close>

record AgentMetadata =
  filePath :: "string option"

record AgentDefinition =
  metadata :: "AgentMetadata option"

record Config =
  getGeminiMdFilePaths :: "string list option"
  getAllDefinitions :: "AgentDefinition list option"

text \<open>
  A JavaScript \<open>Set\<close> of strings keeps its elements in insertion order and
  ignores the insertion of an element it already has: a list without
  duplicates. \<open>new Set (xs)\<close> adds the elements of \<open>xs\<close> from left to right.
\<close>

definition setAdd :: "string list \<Rightarrow> string \<Rightarrow> string list" where
  "setAdd s x = (if x \<in> set s then s else s @ [x])"

definition newSet :: "string list \<Rightarrow> string list" where
  "newSet xs = foldl setAdd [] xs"

text \<open>\<open>String.prototype.endsWith\<close> (code units compared exactly).\<close>

definition endsWith :: "string \<Rightarrow> string \<Rightarrow> bool" where
  "endsWith s suffix =
     (length suffix \<le> length s \<and> drop (length s - length suffix) s = suffix)"

text \<open>
  \<open>Array.prototype.sort (comparefn)\<close> is stable, and for a consistent
  comparison function its result is the sorted arrangement; it is modelled
  by stable insertion: an element goes before the first later element that
  it does not compare greater than.
\<close>

fun insertBy :: "('a \<Rightarrow> 'a \<Rightarrow> int) \<Rightarrow> 'a \<Rightarrow> 'a list \<Rightarrow> 'a list" where
  "insertBy cmp x [] = [x]"
| "insertBy cmp x (y # ys) =
     (if cmp x y \<le> 0 then x # y # ys else y # insertBy cmp x ys)"

definition arraySort :: "('a \<Rightarrow> 'a \<Rightarrow> int) \<Rightarrow> 'a list \<Rightarrow> 'a list" where
  "arraySort cmp xs = foldr (insertBy cmp) xs []"

text \<open>
  Lines 50-57: the backing paths of the registered definitions; a definition
  without metadata, without a file path or with the empty path adds nothing
  (the test \<open>if (definition.metadata?.filePath)\<close> is falsy for all three).
\<close>

definition addDefinition :: "string list \<Rightarrow> AgentDefinition \<Rightarrow> string list" where
  "addDefinition agentPaths definition =
     (case metadata definition of
        None \<Rightarrow> agentPaths
      | Some m \<Rightarrow>
          (case filePath m of
             None \<Rightarrow> agentPaths
           | Some p \<Rightarrow> if p \<noteq> [] then setAdd agentPaths p else agentPaths))"

definition agentPaths :: "Config \<Rightarrow> string list" where
  "agentPaths config =
     foldl addDefinition []
       (case getAllDefinitions config of None \<Rightarrow> [] | Some ds \<Rightarrow> ds)"

definition memoryFiles :: "Config \<Rightarrow> string list" where
  "memoryFiles config =
     (case getGeminiMdFilePaths config of None \<Rightarrow> [] | Some ps \<Rightarrow> ps)"

text \<open>
  Lines 62-76: the classification of one path, given the set \<open>agentPaths\<close>
  (here \<open>registered\<close>). \<open>String.prototype.toLowerCase\<close> belongs to the
  JavaScript runtime and is a parameter of the model.
\<close>

definition classify :: "(string \<Rightarrow> string) \<Rightarrow> string list \<Rightarrow> string \<Rightarrow> FileEntry" where
  "classify toLowerCase registered p =
     (let lower = toLowerCase p in
      if p \<in> set registered \<or> endsWith lower ''agents.md'' \<or> endsWith lower ''.agents''
      then \<lparr>path = p, type' = ''Agent'', id' = None\<rparr>
      else \<lparr>path = p, type' = ''Memory'', id' = None\<rparr>)"

text \<open>
  Lines 77-80: the comparison function of the sort.
  \<open>String.prototype.localeCompare\<close> belongs to the JavaScript runtime and is a
  parameter of the model.
\<close>

definition compareEntries :: "(string \<Rightarrow> string \<Rightarrow> int) \<Rightarrow> FileEntry \<Rightarrow> FileEntry \<Rightarrow> int" where
  "compareEntries localeCompare a b =
     (if type' a \<noteq> type' b then localeCompare (type' a) (type' b)
      else localeCompare (path a) (path b))"

text \<open>Lines 48-81: the memoised list \<open>localFiles\<close>.\<close>

definition localFiles ::
  "(string \<Rightarrow> string) \<Rightarrow> (string \<Rightarrow> string \<Rightarrow> int) \<Rightarrow> Config \<Rightarrow> FileEntry list" where
  "localFiles toLowerCase localeCompare config =
     (let allPaths = newSet (memoryFiles config @ agentPaths config)
      in arraySort (compareEntries localeCompare)
           (map (classify toLowerCase (agentPaths config)) allPaths))"

text \<open>
  What the ECMAScript standard calls a consistent comparison function, in
  terms of the sign of the result: comparing in the opposite direction flips
  the sign, and "not greater" is transitive.
\<close>

definition consistentComparator :: "('a \<Rightarrow> 'a \<Rightarrow> int) \<Rightarrow> bool" where
  "consistentComparator cmp =
     ((\<forall>a b. (cmp a b < 0) = (0 < cmp b a))
      \<and> (\<forall>a b c. cmp a b \<le> 0 \<and> cmp b c \<le> 0 \<longrightarrow> cmp a c \<le> 0))"

text \<open>
  The order the specification states for the resolver's output: the kind is
  the primary key, the path the secondary key, both compared by
  \<open>localeCompare\<close>.
\<close>

definition entryBefore :: "(string \<Rightarrow> string \<Rightarrow> int) \<Rightarrow> FileEntry \<Rightarrow> FileEntry \<Rightarrow> bool" where
  "entryBefore localeCompare a b =
     (if type' a \<noteq> type' b then localeCompare (type' a) (type' b) < 0
      else localeCompare (path a) (path b) \<le> 0)"

text \<open>
  Two concrete runtime functions, used to run the resolver on examples: the
  comparison of strings by their code units, and lower-casing of the ASCII
  letters.
\<close>

definition codeUnitCompare :: "string \<Rightarrow> string \<Rightarrow> int" where
  "codeUnitCompare a b = (if a < b then - 1 else if b < a then 1 else 0)"

definition asciiLowerChar :: "char \<Rightarrow> char" where
  "asciiLowerChar c =
     (if CHR ''A'' \<le> c \<and> c \<le> CHR ''Z'' then char_of (of_char c + (32::nat)) else c)"

definition asciiLower :: "string \<Rightarrow> string" where
  "asciiLower s = map asciiLowerChar s"


section \<open>The view state of MdsBrowser and its key handler\<close>

text \<open>
  MdsBrowser.tsx, lines 43-46: the four pieces of component state, with their
  initial values \<open>0\<close>, \<open>'local'\<close>, \<open>[]\<close> and \<open>false\<close>.
\<close>

datatype ViewMode = Local | Drive

record ViewState =
  activeIndex :: int
  viewMode :: ViewMode
  driveFiles :: "FileEntry list"
  isDriveLoading :: bool

text \<open>
  The key binding table (\<open>keyMatchers\<close>) is not part of the component: a key
  event is represented by its name and by the commands whose matcher accepts it.
\<close>

datatype Command =
    SAVE_TO_DRIVE | IMPORT_FROM_DRIVE | MOVE_DOWN | HISTORY_DOWN
  | MOVE_UP | HISTORY_UP | OPEN_EXTERNAL_EDITOR | OPEN_FILE_LOCATION

record Key =
  name :: string
  matched :: "Command list"

definition keyMatchers :: "Command \<Rightarrow> Key \<Rightarrow> bool" where
  "keyMatchers c key = (c \<in> set (matched key))"

text \<open>
  What the component asks of its collaborators, in the order it asks:
  \<open>onClose ()\<close>, \<open>coreEvents.emitFeedback (level, message)\<close>,
  \<open>manager.downloadFile (id, name)\<close>, \<open>manager.uploadFile (path)\<close>,
  \<open>manager.listFiles ()\<close>, \<open>openFileInEditor (path)\<close> and \<open>openFolder (path)\<close>.
\<close>

datatype Effect =
    OnClose
  | EmitFeedback string string
  | DownloadFile string string
  | UploadFile string
  | ListFiles
  | OpenFileInEditor string
  | OpenFolder string

text \<open>Line 105: the active list.\<close>

definition files :: "FileEntry list \<Rightarrow> ViewState \<Rightarrow> FileEntry list" where
  "files localFiles' s = (if viewMode s = Local then localFiles' else driveFiles s)"

text \<open>\<open>xs[i]\<close> for an integral index: \<open>undefined\<close> (\<open>None\<close>) outside the array.\<close>

definition at :: "'a list \<Rightarrow> int \<Rightarrow> 'a option" where
  "at xs i = (if 0 \<le> i \<and> i < int (length xs) then Some (xs ! nat i) else None)"

text \<open>
  Lines 177-277: the key handler. Every branch returns \<open>true\<close> (the key is
  consumed), so the result is the new state and the effects requested. The
  test \<open>activeFile?.id\<close> is truthy for a defined, non-empty id.
\<close>

definition handleKey :: "FileEntry list \<Rightarrow> ViewState \<Rightarrow> Key \<Rightarrow> ViewState \<times> Effect list" where
  "handleKey localFiles' s key =
     (let activeFile = at (files localFiles' s) (activeIndex s) in
      if name key = ''escape'' then (s, [OnClose])
      else if name key = ''return'' \<or> name key = ''enter'' then
        (case activeFile of
           None \<Rightarrow> (s, [OnClose])
         | Some f \<Rightarrow>
             (case id' f of
                None \<Rightarrow> (s, [OnClose])
              | Some i \<Rightarrow>
                  if viewMode s = Drive \<and> i \<noteq> [] then
                    (s, [EmitFeedback ''info'' (''Downloading '' @ path f @ ''...''),
                         DownloadFile i (path f)])
                  else (s, [OnClose])))
      else if keyMatchers SAVE_TO_DRIVE key then
        (if viewMode s = Local then
           (case activeFile of
              None \<Rightarrow> (s, [])
            | Some f \<Rightarrow>
                (s, [EmitFeedback ''info'' (''Saving '' @ path f @ '' to Drive...''),
                     UploadFile (path f)]))
         else (s, []))
      else if keyMatchers IMPORT_FROM_DRIVE key then
        (s\<lparr>viewMode := (if viewMode s = Local then Drive else Local), activeIndex := 0\<rparr>, [])
      else if keyMatchers MOVE_DOWN key \<or> keyMatchers HISTORY_DOWN key then
        (s\<lparr>activeIndex :=
              min (activeIndex s + 1) (max 0 (int (length (files localFiles' s)) - 1))\<rparr>, [])
      else if keyMatchers MOVE_UP key \<or> keyMatchers HISTORY_UP key then
        (s\<lparr>activeIndex := max (activeIndex s - 1) 0\<rparr>, [])
      else if keyMatchers OPEN_EXTERNAL_EDITOR key then
        (if viewMode s = Local then
           (case activeFile of
              None \<Rightarrow> (s, [])
            | Some f \<Rightarrow> (s, [OpenFileInEditor (path f)]))
         else (s, []))
      else if keyMatchers OPEN_FILE_LOCATION key then
        (if viewMode s = Local then
           (case activeFile of
              None \<Rightarrow> (s, [])
            | Some f \<Rightarrow> (s, [OpenFolder (path f)]))
         else (s, []))
      else (s, []))"

text \<open>
  The keys that reach the branches of the handler for toggling the source and
  for moving the cursor: no earlier branch of the chain takes them.
\<close>

definition isToggleKey :: "Key \<Rightarrow> bool" where
  "isToggleKey key =
     (name key \<noteq> ''escape'' \<and> name key \<noteq> ''return'' \<and> name key \<noteq> ''enter''
      \<and> \<not> keyMatchers SAVE_TO_DRIVE key \<and> keyMatchers IMPORT_FROM_DRIVE key)"

definition isMoveDownKey :: "Key \<Rightarrow> bool" where
  "isMoveDownKey key =
     (name key \<noteq> ''escape'' \<and> name key \<noteq> ''return'' \<and> name key \<noteq> ''enter''
      \<and> \<not> keyMatchers SAVE_TO_DRIVE key \<and> \<not> keyMatchers IMPORT_FROM_DRIVE key
      \<and> (keyMatchers MOVE_DOWN key \<or> keyMatchers HISTORY_DOWN key))"

definition isMoveUpKey :: "Key \<Rightarrow> bool" where
  "isMoveUpKey key =
     (name key \<noteq> ''escape'' \<and> name key \<noteq> ''return'' \<and> name key \<noteq> ''enter''
      \<and> \<not> keyMatchers SAVE_TO_DRIVE key \<and> \<not> keyMatchers IMPORT_FROM_DRIVE key
      \<and> \<not> keyMatchers MOVE_DOWN key \<and> \<not> keyMatchers HISTORY_DOWN key
      \<and> (keyMatchers MOVE_UP key \<or> keyMatchers HISTORY_UP key))"

section \<open>A session of MdsBrowser: keys and settling promises\<close>

text \<open>
  A session is the view state together with the number of \<open>listFiles\<close>
  promises that have not settled and the effects requested so far. The
  component does nothing on \<open>onClose\<close> itself (its parent unmounts it), so
  the session puts no limit on the events after it.
\<close>

record Session =
  view :: ViewState
  pendingLists :: nat
  effects :: "Effect list"

definition initialSession :: Session where
  "initialSession =
     \<lparr>view = \<lparr>activeIndex = 0, viewMode = Local, driveFiles = [], isDriveLoading = False\<rparr>,
      pendingLists = 0, effects = []\<rparr>"

text \<open>
  An event is a key press or the settling of a promise: \<open>listFiles\<close> resolves
  with the listed items (pairs of id and name) or rejects with a message;
  \<open>downloadFile\<close> resolves with the local path (\<open>Inr\<close>) or rejects with a
  message (\<open>Inl\<close>); \<open>uploadFile\<close> of a path resolves (\<open>None\<close>) or rejects with a
  message.
\<close>

datatype Event =
    KeyPress Key
  | ListFilesResolved "(string \<times> string) list"
  | ListFilesRejected string
  | DownloadSettled "string + string"
  | UploadSettled string "string option"

text \<open>
  Lines 83-103: the body of the effect. React runs it after the first render
  and after every render in which \<open>viewMode\<close> (or \<open>config\<close>, which is fixed
  during a session) has changed.
\<close>

definition driveEffect :: "Session \<Rightarrow> Session" where
  "driveEffect s =
     (if viewMode (view s) = Drive \<and> driveFiles (view s) = [] \<and> \<not> isDriveLoading (view s)
      then s\<lparr>view := (view s)\<lparr>isDriveLoading := True\<rparr>,
             pendingLists := Suc (pendingLists s),
             effects := effects s @ [ListFiles]\<rparr>
      else s)"

definition driveEntry :: "string \<times> string \<Rightarrow> FileEntry" where
  "driveEntry item = \<lparr>path = snd item, type' = ''Drive'', id' = Some (fst item)\<rparr>"

fun step :: "FileEntry list \<Rightarrow> Session \<Rightarrow> Event \<Rightarrow> Session" where
  "step localFiles' s (KeyPress key) =
     (let (v, es) = handleKey localFiles' (view s) key;
          s' = s\<lparr>view := v, effects := effects s @ es\<rparr>
      in if viewMode v \<noteq> viewMode (view s) then driveEffect s' else s')"
| "step localFiles' s (ListFilesResolved f) =
     (if pendingLists s = 0 then s
      else s\<lparr>view := (view s)\<lparr>driveFiles := map driveEntry f, isDriveLoading := False\<rparr>,
             pendingLists := pendingLists s - 1\<rparr>)"
| "step localFiles' s (ListFilesRejected message) =
     (if pendingLists s = 0 then s
      else s\<lparr>view := (view s)\<lparr>isDriveLoading := False\<rparr>,
             pendingLists := pendingLists s - 1,
             effects := effects s @
               [EmitFeedback ''error'' (''[MdsBrowser] Failed to list Drive files: '' @ message)]\<rparr>)"
| "step localFiles' s (DownloadSettled (Inr p)) =
     s\<lparr>effects := effects s @ [EmitFeedback ''info'' (''File downloaded to: '' @ p), OnClose]\<rparr>"
| "step localFiles' s (DownloadSettled (Inl message)) =
     s\<lparr>effects := effects s @ [EmitFeedback ''error'' (''Download failed: '' @ message), OnClose]\<rparr>"
| "step localFiles' s (UploadSettled p None) =
     s\<lparr>effects := effects s @
          [EmitFeedback ''info'' (''Successfully uploaded '' @ p @ '' to Drive.'')]\<rparr>"
| "step localFiles' s (UploadSettled p (Some message)) =
     s\<lparr>effects := effects s @ [EmitFeedback ''error'' (''Upload failed: '' @ message)]\<rparr>"

definition run :: "FileEntry list \<Rightarrow> Session \<Rightarrow> Event list \<Rightarrow> Session" where
  "run localFiles' s events = foldl (step localFiles') s events"

definition fetchCount :: "Session \<Rightarrow> nat" where
  "fetchCount s = length (filter (\<lambda>e. e = ListFiles) (effects s))"

text \<open>
  The loading flag tells whether a \<open>listFiles\<close> promise is pending, at most
  one is, and none is while the cache has entries.
\<close>

definition loadingInv :: "Session \<Rightarrow> bool" where
  "loadingInv s =
     (isDriveLoading (view s) = (0 < pendingLists s) \<and> pendingLists s \<le> 1
      \<and> (pendingLists s = 0 \<or> driveFiles (view s) = []))"


section \<open>DriveManager: listing and downloading\<close>

text \<open>
  driveManager.ts. A rejected promise or a thrown error is \<open>Inl\<close> of its
  message, a resolved one \<open>Inr\<close> of its value. What lies outside the class is a
  field of \<open>DriveWorld\<close>: the outcome of \<open>getOauthClient\<close>, of the private
  \<open>getOrCreateWorkspaceFolder ()\<close> (lines 34-68, a folder id or a rejection), of
  \<open>files.list\<close> (whose \<open>res.data.files\<close> may be undefined) and of \<open>files.get\<close>;
  \<open>Storage.getGlobalGeminiDir ()\<close>, \<open>process.cwd ()\<close> and \<open>path.join\<close>; and
  whether \<open>fs.mkdir\<close> and \<open>fs.writeFile\<close> fail for a path.
\<close>

type_synonym Error = string

record DriveWorld =
  getOauthClient :: "Error + unit"
  getOrCreateWorkspaceFolder :: "Error + string"
  files_list :: "string \<Rightarrow> Error + (string \<times> string) list option"
  files_get :: "string \<Rightarrow> Error + string"
  getGlobalGeminiDir :: string
  cwd :: string
  join :: "string \<Rightarrow> string \<Rightarrow> string"
  mkdirError :: "string \<Rightarrow> Error option"
  writeFileError :: "string \<Rightarrow> Error option"

text \<open>Lines 24-29: \<open>getDriveClient\<close> awaits \<open>getOauthClient\<close> and wraps the client.\<close>

definition getDriveClient :: "DriveWorld \<Rightarrow> Error + unit" where
  "getDriveClient w = (case getOauthClient w of Inl e \<Rightarrow> Inl e | Inr authClient \<Rightarrow> Inr ())"

text \<open>
  Lines 154-169: \<open>listFiles\<close>. The result is the outcome of the promise and the
  calls of \<open>debugLogger.warn\<close> (message and error). The first await, of
  \<open>getDriveClient\<close>, stands before the \<open>try\<close> block.
\<close>

definition listFiles ::
  "DriveWorld \<Rightarrow> (Error + (string \<times> string) list) \<times> (string \<times> Error) list" where
  "listFiles w =
     (case getDriveClient w of
        Inl e \<Rightarrow> (Inl e, [])
      | Inr driveClient \<Rightarrow>
          (case (case getOrCreateWorkspaceFolder w of
                   Inl e \<Rightarrow> Inl e
                 | Inr folderId \<Rightarrow>
                     (case files_list w folderId of
                        Inl e \<Rightarrow> Inl e
                      | Inr None \<Rightarrow> Inr []
                      | Inr (Some fs) \<Rightarrow> Inr fs)) of
             Inl e \<Rightarrow> (Inr [], [(''Failed to list files from Drive'', e)])
           | Inr fs \<Rightarrow> (Inr fs, [])))"

definition listFilesEvent :: "DriveWorld \<Rightarrow> Event" where
  "listFilesEvent w =
     (case fst (listFiles w) of Inl e \<Rightarrow> ListFilesRejected e | Inr fs \<Rightarrow> ListFilesResolved fs)"

text \<open>
  The local file system as far as \<open>downloadFile\<close> touches it: the directories
  that exist and the contents of the files.
\<close>

record FileSystem =
  directories :: "string set"
  contents :: "string \<Rightarrow> string option"

text \<open>Lines 182-185: the destination directory.\<close>

definition destDir :: "DriveWorld \<Rightarrow> string \<Rightarrow> string" where
  "destDir w fileName =
     (if endsWith fileName ''.AGENTS'' then join w (getGlobalGeminiDir w) ''skills''
      else cwd w)"

text \<open>
  Lines 174-197: \<open>downloadFile\<close>. Every failure inside the \<open>try\<close> block is
  logged and thrown again. \<open>fs.mkdir\<close> with \<open>recursive: true\<close> creates the
  directory when it is absent and succeeds when it exists.
\<close>

definition downloadFile ::
  "DriveWorld \<Rightarrow> FileSystem \<Rightarrow> string \<Rightarrow> string
     \<Rightarrow> (Error + string) \<times> FileSystem \<times> (string \<times> Error) list" where
  "downloadFile w fs fileId fileName =
     (case getDriveClient w of
        Inl e \<Rightarrow> (Inl e, fs, [(''Failed to download file from Drive'', e)])
      | Inr driveClient \<Rightarrow>
          (case files_get w fileId of
             Inl e \<Rightarrow> (Inl e, fs, [(''Failed to download file from Drive'', e)])
           | Inr data \<Rightarrow>
               (case mkdirError w (destDir w fileName) of
                  Some e \<Rightarrow> (Inl e, fs, [(''Failed to download file from Drive'', e)])
                | None \<Rightarrow>
                    (let fs1 = fs\<lparr>directories := insert (destDir w fileName) (directories fs)\<rparr>;
                         localFilePath = join w (destDir w fileName) fileName
                     in case writeFileError w localFilePath of
                          Some e \<Rightarrow> (Inl e, fs1, [(''Failed to download file from Drive'', e)])
                        | None \<Rightarrow>
                            (Inr localFilePath,
                             fs1\<lparr>contents := (contents fs1)(localFilePath \<mapsto> data)\<rparr>,
                             [])))))"

section \<open>Opening a file in the external editor\<close>

text \<open>
  MdsBrowser.tsx, lines 107-151. Outside the component: the preferred editor
  of the settings, \<open>getEditorCommand\<close> and \<open>isGuiEditor\<close>, the environment
  variables \<open>VISUAL\<close> and \<open>EDITOR\<close>, the platform, whether Ink provides
  \<open>setRawMode\<close> (it is called as \<open>setRawMode?.(...)\<close>), and \<open>spawnSync\<close>, which
  throws (\<open>Inl\<close>) or returns an object with \<open>status\<close> and \<open>error\<close>.
\<close>

record SpawnSyncReturns =
  status :: "int option"
  error :: "Error option"

record EditorWorld =
  preferredEditor :: "string option"
  getEditorCommand :: "string \<Rightarrow> string"
  isGuiEditor :: "string \<Rightarrow> bool"
  envVISUAL :: "string option"
  envEDITOR :: "string option"
  platform :: string
  setRawModeDefined :: bool
  spawnSync :: "string \<Rightarrow> string list \<Rightarrow> Error + SpawnSyncReturns"

text \<open>
  What is thrown inside the \<open>try\<close> block: the error of the spawn, or the error
  made for an exit status other than 0.
\<close>

datatype EditorError = SpawnError Error | ExitStatus int

datatype TerminalEvent =
    SetRawMode bool
  | SpawnSync string "string list"
  | EditorFeedback string string EditorError
  | ExternalEditorClosed

record Terminal =
  rawMode :: bool
  trace :: "TerminalEvent list"

definition setRawMode :: "EditorWorld \<Rightarrow> bool \<Rightarrow> Terminal \<Rightarrow> Terminal" where
  "setRawMode w b t =
     (if setRawModeDefined w then t\<lparr>rawMode := b, trace := trace t @ [SetRawMode b]\<rparr> else t)"

text \<open>
  Lines 123-128: the editor of the environment,
  \<open>VISUAL ?? EDITOR ?? (win32 ? 'notepad' : 'vi')\<close>; \<open>??\<close> passes over an undefined
  value only.
\<close>

definition environmentEditor :: "EditorWorld \<Rightarrow> string" where
  "environmentEditor w =
     (case envVISUAL w of
        Some v \<Rightarrow> v
      | None \<Rightarrow>
          (case envEDITOR w of
             Some e \<Rightarrow> e
           | None \<Rightarrow> if platform w = ''win32'' then ''notepad'' else ''vi''))"

text \<open>
  Lines 109-128: the command and its arguments. The preferred editor counts
  when it is defined and not empty; \<open>!command\<close> holds for an undefined and for
  an empty command.
\<close>

definition editorCommand :: "EditorWorld \<Rightarrow> string \<Rightarrow> string \<times> string list" where
  "editorCommand w filePath' =
     (case preferredEditor w of
        None \<Rightarrow> (environmentEditor w, [filePath'])
      | Some preferredEditorType \<Rightarrow>
          if preferredEditorType \<noteq> [] then
            (let command = getEditorCommand w preferredEditorType;
                 args = (if isGuiEditor w preferredEditorType then [''--wait'', filePath']
                         else [filePath'])
             in if command = [] then (environmentEditor w, args) else (command, args))
          else (environmentEditor w, [filePath']))"

text \<open>Lines 132-138: what the \<open>try\<close> block throws after the spawn, if anything.\<close>

definition editorFailure :: "EditorWorld \<Rightarrow> string \<Rightarrow> EditorError option" where
  "editorFailure w filePath' =
     (case spawnSync w (fst (editorCommand w filePath')) (snd (editorCommand w filePath')) of
        Inl e \<Rightarrow> Some (SpawnError e)
      | Inr r \<Rightarrow>
          (case error r of
             Some e \<Rightarrow> Some (SpawnError e)
           | None \<Rightarrow>
               (case status r of
                  None \<Rightarrow> None
                | Some n \<Rightarrow> if n \<noteq> 0 then Some (ExitStatus n) else None)))"

text \<open>Lines 130-148: \<open>try\<close>, \<open>catch\<close> and \<open>finally\<close>.\<close>

definition openFileInEditor :: "EditorWorld \<Rightarrow> Terminal \<Rightarrow> string \<Rightarrow> Terminal" where
  "openFileInEditor w t filePath' =
     (let t1 = setRawMode w False t;
          t2 = t1\<lparr>trace := trace t1 @
                 [SpawnSync (fst (editorCommand w filePath')) (snd (editorCommand w filePath'))]\<rparr>;
          t3 = (case editorFailure w filePath' of
                  None \<Rightarrow> t2
                | Some err \<Rightarrow>
                    t2\<lparr>trace := trace t2 @
                         [EditorFeedback ''error'' ''[MdsBrowser] external editor error'' err]\<rparr>);
          t4 = setRawMode w True t3
      in t4\<lparr>trace := trace t4 @ [ExternalEditorClosed]\<rparr>)"


section \<open>Properties of the scroll window\<close>

lemma clamp_order_irrelevant:
  "lo \<le> hi \<Longrightarrow> clamp x lo hi = min hi (max lo x)"
  by (simp add: clamp_def min_def max_def)

lemma startIdx_nonneg: "0 \<le> startIdx a h n"
  by (simp add: startIdx_def)

lemma startIdx_le_cursor: "0 \<le> a \<Longrightarrow> 0 \<le> h \<Longrightarrow> startIdx a h n \<le> a"
proof -
  assume a: "0 \<le> a" and h: "0 \<le> h"
  from h have "0 \<le> h div 2" by simp
  then have "min (a - h div 2) (n - h) \<le> a" by simp
  with a show ?thesis by (simp add: startIdx_def)
qed

lemma cursor_before_end: "a < n \<Longrightarrow> 1 \<le> h \<Longrightarrow> a < startIdx a h n + h"
proof -
  assume a: "a < n" and h: "1 \<le> h"
  from h have "h div 2 < h" by simp
  with a have "a < min (a - h div 2) (n - h) + h" by simp
  moreover have "min (a - h div 2) (n - h) \<le> startIdx a h n"
    by (simp add: startIdx_def)
  ultimately show ?thesis by simp
qed

text \<open>
  C3. For every cursor index, viewport height and list length the window of the
  component is the one of the specification's formula; when the list is at
  least as long as the viewport the window lies inside the list, when it is
  shorter the window starts at 0; and the window for height 10, cursor 50 and
  200 items is [45, 55).
\<close>

theorem scroll_window_formula:
  "(startIdx a h n, endIdx a h n) = computeScrollWindow_spec h a n
   \<and> endIdx a h n = startIdx a h n + h
   \<and> (h \<le> n \<longrightarrow> 0 \<le> startIdx a h n \<and> endIdx a h n \<le> n)
   \<and> (n < h \<longrightarrow> startIdx a h n = 0)
   \<and> (startIdx 50 10 200, endIdx 50 10 200) = (45, 55)"
  by (auto simp add: startIdx_def endIdx_def computeScrollWindow_spec_def clamp_def Let_def
        min_def max_def)

theorem scroll_window_formula_witness:
  "(10::int) \<le> 200 \<and> 0 \<le> startIdx 199 10 200 \<and> endIdx 199 10 200 \<le> 200
   \<and> startIdx 199 10 200 = 190
   \<and> (3::int) < 5 \<and> startIdx 2 5 3 = 0"
  using scroll_window_formula [of 199 10 200] scroll_window_formula [of 2 5 3]
  by (simp add: startIdx_def)

lemma slice_inner:
  assumes "0 \<le> s" "s \<le> e" "e \<le> int (length xs)"
  shows "slice xs s e = take (nat (e - s)) (drop (nat s) xs)"
  using assms by (simp add: slice_def Let_def min_def max_def)

lemma slice_clip:
  assumes "0 \<le> s" "int (length xs) \<le> e"
  shows "slice xs s e = drop (nat s) xs"
proof (cases "s \<le> int (length xs)")
  case True
  then have "length xs - nat s \<le> nat (int (length xs) - s)" using assms by linarith
  then show ?thesis using assms True by (auto simp add: slice_def Let_def min_def max_def)
next
  case False
  then have "length xs \<le> nat s" by linarith
  then show ?thesis using assms False by (simp add: slice_def Let_def min_def max_def)
qed

lemma slice_nth:
  assumes "0 \<le> s" "s \<le> a" "a < e" "a < int (length xs)"
  shows "nat (a - s) < length (slice xs s e) \<and> slice xs s e ! nat (a - s) = xs ! nat a"
proof -
  have le: "nat s \<le> length xs" using assms by linarith
  have len: "nat s + nat (a - s) = nat a" using assms by linarith
  have dr: "drop (nat s) xs ! nat (a - s) = xs ! nat a"
    using nth_drop [OF le, of "nat (a - s)"] by (simp only: len)
  show ?thesis
  proof (cases "e \<le> int (length xs)")
    case True
    have sl: "slice xs s e = take (nat (e - s)) (drop (nat s) xs)"
      using assms True by (intro slice_inner) linarith+
    have i: "nat (a - s) < nat (e - s)" using assms by linarith
    have j: "nat (a - s) < length xs - nat s" using assms by linarith
    show ?thesis using i j dr by (simp add: sl)
  next
    case False
    have sl: "slice xs s e = drop (nat s) xs"
      using assms False by (intro slice_clip) linarith+
    have j: "nat (a - s) < length xs - nat s" using assms by linarith
    show ?thesis using j dr by (simp add: sl)
  qed
qed

text \<open>
  C10. For a cursor inside the list and a viewport of height at least 1 the
  window contains the cursor, so the rendered slice includes the selected row;
  and for a list shorter than the viewport the rendered slice is the whole list.
\<close>

theorem window_contains_cursor:
  "(0 \<le> a \<and> a < int (length fs) \<and> 1 \<le> h \<longrightarrow>
      startIdx a h (int (length fs)) \<le> a
      \<and> a < endIdx a h (int (length fs))
      \<and> endIdx a h (int (length fs)) = startIdx a h (int (length fs)) + h
      \<and> fs ! nat a \<in> set (visibleFiles fs a h)
      \<and> visibleFiles fs a h ! nat (a - startIdx a h (int (length fs))) = fs ! nat a)
   \<and> (int (length fs) < h \<longrightarrow>
      int (length fs) < endIdx a h (int (length fs))
      \<and> visibleFiles fs a h = fs)"
proof (intro conjI impI)
  assume A: "0 \<le> a \<and> a < int (length fs) \<and> 1 \<le> h"
  let ?n = "int (length fs)"
  let ?s = "startIdx a h ?n"
  from A have s1: "?s \<le> a" by (simp add: startIdx_le_cursor)
  from A have s2: "a < ?s + h" by (simp add: cursor_before_end)
  have s0: "0 \<le> ?s" by (rule startIdx_nonneg)
  show "?s \<le> a" by (rule s1)
  show "a < endIdx a h ?n" using s2 by (simp add: endIdx_def)
  show "endIdx a h ?n = ?s + h" by (simp add: endIdx_def)
  have sn: "nat (a - ?s) < length (slice fs ?s (?s + h))
      \<and> slice fs ?s (?s + h) ! nat (a - ?s) = fs ! nat a"
    using s0 s1 s2 A by (intro slice_nth) simp_all
  have vis: "visibleFiles fs a h = slice fs ?s (?s + h)"
    by (simp add: visibleFiles_def endIdx_def)
  show nth: "visibleFiles fs a h ! nat (a - ?s) = fs ! nat a"
    using sn by (simp only: vis)
  have "nat (a - ?s) < length (visibleFiles fs a h)"
    using sn by (simp only: vis)
  then have "visibleFiles fs a h ! nat (a - ?s) \<in> set (visibleFiles fs a h)"
    by (rule nth_mem)
  then show "fs ! nat a \<in> set (visibleFiles fs a h)" by (simp only: nth)
next
  assume B: "int (length fs) < h"
  then have z: "startIdx a h (int (length fs)) = 0" by (simp add: startIdx_def)
  show "int (length fs) < endIdx a h (int (length fs))" using B z by (simp add: endIdx_def)
  show "visibleFiles fs a h = fs" using B z by (simp add: visibleFiles_def slice_def Let_def endIdx_def)
qed

theorem window_contains_cursor_witness:
  "(0::int) \<le> 3 \<and> (3::int) < int (length [''a'', ''b'', ''c'', ''d'', ''e''])
   \<and> (1::int) \<le> 2
   \<and> startIdx 3 2 5 = 2 \<and> endIdx 3 2 5 = 4
   \<and> visibleFiles [''a'', ''b'', ''c'', ''d'', ''e''] 3 2 = [''c'', ''d'']
   \<and> ''d'' \<in> set (visibleFiles [''a'', ''b'', ''c'', ''d'', ''e''] 3 2)
   \<and> int (length [''a'', ''b'']) < 5
   \<and> visibleFiles [''a'', ''b''] 1 5 = [''a'', ''b'']"
  using window_contains_cursor [of 3 "[''a'', ''b'', ''c'', ''d'', ''e'']" 2]
    window_contains_cursor [of 1 "[''a'', ''b'']" 5]
  by (simp add: visibleFiles_def slice_def startIdx_def endIdx_def)


section \<open>Properties of the Entry Resolver\<close>

lemma set_insertBy: "set (insertBy cmp x xs) = insert x (set xs)"
  by (induction xs) auto

lemma set_arraySort: "set (arraySort cmp xs) = set xs"
  by (induction xs) (simp_all add: arraySort_def set_insertBy)

lemma distinct_map_insertBy:
  "distinct (map f (insertBy cmp x xs)) = (f x \<notin> f ` set xs \<and> distinct (map f xs))"
  by (induction xs) (auto simp: set_insertBy)

lemma distinct_map_arraySort:
  "distinct (map f (arraySort cmp xs)) = distinct (map f xs)"
  by (induction xs) (simp_all add: arraySort_def distinct_map_insertBy set_arraySort [unfolded arraySort_def])

lemma sorted_insertBy:
  assumes tr: "\<And>a b c. P a \<Longrightarrow> P b \<Longrightarrow> P c \<Longrightarrow> cmp a b \<le> 0 \<Longrightarrow> cmp b c \<le> 0 \<Longrightarrow> cmp a c \<le> 0"
    and tot: "\<And>a b. P a \<Longrightarrow> P b \<Longrightarrow> cmp a b \<le> 0 \<or> cmp b a \<le> 0"
    and px: "P x" and pxs: "\<And>y. y \<in> set xs \<Longrightarrow> P y"
    and srt: "sorted_wrt (\<lambda>a b. cmp a b \<le> 0) xs"
  shows "sorted_wrt (\<lambda>a b. cmp a b \<le> 0) (insertBy cmp x xs)"
  using pxs srt
proof (induction xs)
  case Nil
  show ?case by simp
next
  case (Cons y ys)
  have py: "P y" by (rule Cons.prems(1)) simp
  have pys: "\<And>z. z \<in> set ys \<Longrightarrow> P z" by (rule Cons.prems(1)) simp
  have sys: "sorted_wrt (\<lambda>a b. cmp a b \<le> 0) ys" using Cons.prems(2) by simp
  have yall: "\<And>z. z \<in> set ys \<Longrightarrow> cmp y z \<le> 0" using Cons.prems(2) by simp
  show ?case
  proof (cases "cmp x y \<le> 0")
    case True
    have "\<And>z. z \<in> set ys \<Longrightarrow> cmp x z \<le> 0"
      using tr [OF px py pys True yall] by blast
    then show ?thesis using True Cons.prems(2) by simp
  next
    case False
    then have yx: "cmp y x \<le> 0" using tot [OF px py] by simp
    have ih: "sorted_wrt (\<lambda>a b. cmp a b \<le> 0) (insertBy cmp x ys)"
      by (rule Cons.IH [OF pys sys])
    show ?thesis using False yx yall ih by (simp add: set_insertBy)
  qed
qed

lemma sorted_arraySort:
  assumes tr: "\<And>a b c. P a \<Longrightarrow> P b \<Longrightarrow> P c \<Longrightarrow> cmp a b \<le> 0 \<Longrightarrow> cmp b c \<le> 0 \<Longrightarrow> cmp a c \<le> 0"
    and tot: "\<And>a b. P a \<Longrightarrow> P b \<Longrightarrow> cmp a b \<le> 0 \<or> cmp b a \<le> 0"
    and pxs: "\<And>y. y \<in> set xs \<Longrightarrow> P y"
  shows "sorted_wrt (\<lambda>a b. cmp a b \<le> 0) (arraySort cmp xs)"
  using pxs
proof (induction xs)
  case Nil
  show ?case by (simp add: arraySort_def)
next
  case (Cons x xs)
  have px: "P x" by (rule Cons.prems) simp
  have pxs': "\<And>y. y \<in> set xs \<Longrightarrow> P y" by (rule Cons.prems) simp
  have ih: "sorted_wrt (\<lambda>a b. cmp a b \<le> 0) (arraySort cmp xs)" by (rule Cons.IH [OF pxs'])
  have pin: "\<And>y. y \<in> set (arraySort cmp xs) \<Longrightarrow> P y" using pxs' by (simp add: set_arraySort)
  have "sorted_wrt (\<lambda>a b. cmp a b \<le> 0) (insertBy cmp x (arraySort cmp xs))"
    by (rule sorted_insertBy [where P = P, OF tr tot px pin ih])
  then show ?case by (simp add: arraySort_def)
qed

lemma setAdd_set: "set (setAdd s x) = insert x (set s)"
  by (auto simp: setAdd_def)

lemma setAdd_distinct: "distinct s \<Longrightarrow> distinct (setAdd s x)"
  by (simp add: setAdd_def)

lemma foldl_setAdd_set: "set (foldl setAdd acc xs) = set acc \<union> set xs"
  by (induction xs arbitrary: acc) (auto simp: setAdd_set)

lemma foldl_setAdd_distinct: "distinct acc \<Longrightarrow> distinct (foldl setAdd acc xs)"
  by (induction xs arbitrary: acc) (simp_all add: setAdd_distinct)

lemma newSet_set: "set (newSet xs) = set xs"
  by (simp add: newSet_def foldl_setAdd_set)

lemma newSet_distinct: "distinct (newSet xs)"
  by (simp add: newSet_def foldl_setAdd_distinct)

lemma classify_path: "path (classify lower reg p) = p"
  by (simp add: classify_def Let_def)

lemma classify_type:
  "type' (classify lower reg p) = ''Agent'' \<or> type' (classify lower reg p) = ''Memory''"
  by (simp add: classify_def Let_def)

lemma classify_registered:
  "p \<in> set reg \<Longrightarrow> classify lower reg p = \<lparr>path = p, type' = ''Agent'', id' = None\<rparr>"
  by (simp add: classify_def Let_def)

lemma map_path_classify: "map path (map (classify lower reg) ps) = ps"
  by (induction ps) (simp_all add: classify_path)

lemma addDefinition_set:
  "set (addDefinition acc d) =
     set acc \<union> {p. p \<noteq> [] \<and> (\<exists>m. metadata d = Some m \<and> filePath m = Some p)}"
  by (auto simp: addDefinition_def setAdd_set split: option.splits)

lemma foldl_addDefinition_set:
  "set (foldl addDefinition acc ds) =
     set acc \<union> {p. p \<noteq> [] \<and> (\<exists>d \<in> set ds. \<exists>m. metadata d = Some m \<and> filePath m = Some p)}"
proof (induction ds arbitrary: acc)
  case Nil
  show ?case by simp
next
  case (Cons d ds)
  show ?case unfolding foldl_Cons Cons.IH addDefinition_set by auto
qed

lemma agentPaths_member:
  "getAllDefinitions config = Some ds \<Longrightarrow> d \<in> set ds \<Longrightarrow> metadata d = Some m \<Longrightarrow>
   filePath m = Some p \<Longrightarrow> p \<noteq> [] \<Longrightarrow> p \<in> set (agentPaths config)"
  by (auto simp: agentPaths_def foldl_addDefinition_set)

lemma localFiles_set:
  "set (localFiles lower lc config) =
     classify lower (agentPaths config) ` (set (memoryFiles config) \<union> set (agentPaths config))"
  by (simp add: localFiles_def Let_def set_arraySort newSet_set)

lemma localFiles_paths_distinct: "distinct (map path (localFiles lower lc config))"
proof -
  have "distinct (map path (map (classify lower (agentPaths config))
          (newSet (memoryFiles config @ agentPaths config))))"
    by (simp only: map_path_classify newSet_distinct)
  then show ?thesis
    by (simp only: localFiles_def Let_def distinct_map_arraySort)
qed

text \<open>The comparison function of the sort is consistent on classified entries.\<close>

lemma compareEntries_trans:
  assumes c: "consistentComparator lc" and ne: "lc ''Agent'' ''Memory'' \<noteq> 0"
    and ta: "type' a = ''Agent'' \<or> type' a = ''Memory''"
    and tb: "type' b = ''Agent'' \<or> type' b = ''Memory''"
    and tc: "type' c = ''Agent'' \<or> type' c = ''Memory''"
    and ab: "compareEntries lc a b \<le> 0" and bc: "compareEntries lc b c \<le> 0"
  shows "compareEntries lc a c \<le> 0"
proof -
  have flip: "\<And>x y. (lc x y < 0) = (0 < lc y x)"
    using c by (simp add: consistentComparator_def)
  have tr: "\<And>x y z. lc x y \<le> 0 \<Longrightarrow> lc y z \<le> 0 \<Longrightarrow> lc x z \<le> 0"
    using c unfolding consistentComparator_def by blast
  have one: "\<not> (lc ''Agent'' ''Memory'' \<le> 0 \<and> lc ''Memory'' ''Agent'' \<le> 0)"
    using flip [of "''Agent''" "''Memory''"] flip [of "''Memory''" "''Agent''"] ne by linarith
  show ?thesis
  proof (cases "type' a = type' b")
    case eqab: True
    show ?thesis
    proof (cases "type' b = type' c")
      case True
      then show ?thesis using eqab ab bc tr [of "path a" "path b" "path c"]
        by (simp add: compareEntries_def)
    next
      case False
      then show ?thesis using eqab bc by (simp add: compareEntries_def)
    qed
  next
    case neab: False
    show ?thesis
    proof (cases "type' b = type' c")
      case True
      then show ?thesis using neab ab by (simp add: compareEntries_def)
    next
      case False
      then have "type' a = type' c" using neab ta tb tc by auto
      then have "lc (type' a) (type' b) \<le> 0 \<and> lc (type' b) (type' a) \<le> 0"
        using neab False ab bc by (simp add: compareEntries_def)
      then show ?thesis using one neab ta tb by auto
    qed
  qed
qed

lemma compareEntries_total:
  assumes c: "consistentComparator lc"
  shows "compareEntries lc a b \<le> 0 \<or> compareEntries lc b a \<le> 0"
proof -
  have flip: "\<And>x y. (lc x y < 0) = (0 < lc y x)"
    using c by (simp add: consistentComparator_def)
  have "\<And>x y. lc x y \<le> 0 \<or> lc y x \<le> 0" using flip by (metis not_le order_less_imp_le)
  then show ?thesis by (simp add: compareEntries_def)
qed

lemma compareEntries_entryBefore:
  assumes c: "consistentComparator lc" and ne: "lc ''Agent'' ''Memory'' \<noteq> 0"
    and ta: "type' a = ''Agent'' \<or> type' a = ''Memory''"
    and tb: "type' b = ''Agent'' \<or> type' b = ''Memory''"
    and ab: "compareEntries lc a b \<le> 0"
  shows "entryBefore lc a b"
proof (cases "type' a = type' b")
  case True
  then show ?thesis using ab by (simp add: compareEntries_def entryBefore_def)
next
  case False
  have flip: "\<And>x y. (lc x y < 0) = (0 < lc y x)"
    using c by (simp add: consistentComparator_def)
  have "lc ''Memory'' ''Agent'' \<noteq> 0"
    using flip [of "''Agent''" "''Memory''"] flip [of "''Memory''" "''Agent''"] ne by linarith
  then have "lc (type' a) (type' b) \<noteq> 0" using False ta tb ne by auto
  then show ?thesis using False ab by (simp add: compareEntries_def entryBefore_def)
qed

lemma localFiles_types:
  "e \<in> set (localFiles lower lc config) \<Longrightarrow> type' e = ''Agent'' \<or> type' e = ''Memory''"
  using classify_type by (auto simp: localFiles_set)

lemma localFiles_sorted:
  assumes c: "consistentComparator lc" and ne: "lc ''Agent'' ''Memory'' \<noteq> 0"
  shows "sorted_wrt (entryBefore lc) (localFiles lower lc config)"
proof -
  let ?P = "\<lambda>e. type' e = ''Agent'' \<or> type' e = ''Memory''"
  let ?xs = "map (classify lower (agentPaths config))
               (newSet (memoryFiles config @ agentPaths config))"
  have pxs: "\<And>y. y \<in> set ?xs \<Longrightarrow> ?P y" using classify_type by auto
  have s: "sorted_wrt (\<lambda>a b. compareEntries lc a b \<le> 0) (arraySort (compareEntries lc) ?xs)"
  proof (rule sorted_arraySort [where P = ?P])
    fix a b c
    assume "?P a" "?P b" "?P c" "compareEntries lc a b \<le> 0" "compareEntries lc b c \<le> 0"
    then show "compareEntries lc a c \<le> 0" by (rule compareEntries_trans [OF c ne])
  next
    fix a b :: FileEntry
    show "compareEntries lc a b \<le> 0 \<or> compareEntries lc b a \<le> 0"
      by (rule compareEntries_total [OF c])
  next
    fix y assume "y \<in> set ?xs" then show "?P y" by (rule pxs)
  qed
  have "sorted_wrt (entryBefore lc) (arraySort (compareEntries lc) ?xs)"
  proof (rule sorted_wrt_mono_rel [OF _ s])
    fix a b
    assume "a \<in> set (arraySort (compareEntries lc) ?xs)" "b \<in> set (arraySort (compareEntries lc) ?xs)"
      and ab: "compareEntries lc a b \<le> 0"
    then have "?P a" "?P b" using pxs by (simp_all only: set_arraySort)
    then show "entryBefore lc a b" using ab by (intro compareEntries_entryBefore [OF c ne])
  qed
  then show ?thesis by (simp add: localFiles_def Let_def)
qed

lemma codeUnitCompare_consistent: "consistentComparator codeUnitCompare"
  unfolding consistentComparator_def codeUnitCompare_def by auto

text \<open>
  C4. For every configuration the resolver's output has no two entries with the
  same path, and is sorted with the kind as primary key and the path as
  secondary key, in the order of \<open>localeCompare\<close>; its paths are the known
  document paths together with the definitions' backing paths.
\<close>

theorem localFiles_distinct_sorted:
  assumes "consistentComparator lc" and "lc ''Agent'' ''Memory'' \<noteq> 0"
  shows "distinct (map path (localFiles lower lc config))
    \<and> sorted_wrt (entryBefore lc) (localFiles lower lc config)
    \<and> set (map path (localFiles lower lc config))
        = set (memoryFiles config) \<union> set (agentPaths config)"
proof -
  have "path ` classify lower (agentPaths config) ` (set (memoryFiles config) \<union> set (agentPaths config))
      = set (memoryFiles config) \<union> set (agentPaths config)"
    by (simp add: image_image classify_path)
  then show ?thesis
    using localFiles_paths_distinct localFiles_sorted [OF assms]
    by (simp add: localFiles_set)
qed

theorem localFiles_distinct_sorted_witness:
  "localFiles asciiLower codeUnitCompare
     \<lparr>getGeminiMdFilePaths = Some [''/a/notes.md'', ''/a/AGENTS.md'', ''/a/notes.md''],
      getAllDefinitions = Some [\<lparr>metadata = Some \<lparr>filePath = Some ''/a/AGENTS.md''\<rparr>\<rparr>,
                                \<lparr>metadata = Some \<lparr>filePath = Some ''/b/x.md''\<rparr>\<rparr>]\<rparr>
   = [\<lparr>path = ''/a/AGENTS.md'', type' = ''Agent'', id' = None\<rparr>,
      \<lparr>path = ''/b/x.md'', type' = ''Agent'', id' = None\<rparr>,
      \<lparr>path = ''/a/notes.md'', type' = ''Memory'', id' = None\<rparr>]
   \<and> distinct (map path (localFiles asciiLower codeUnitCompare
     \<lparr>getGeminiMdFilePaths = Some [''/a/notes.md'', ''/a/AGENTS.md'', ''/a/notes.md''],
      getAllDefinitions = Some [\<lparr>metadata = Some \<lparr>filePath = Some ''/a/AGENTS.md''\<rparr>\<rparr>,
                                \<lparr>metadata = Some \<lparr>filePath = Some ''/b/x.md''\<rparr>\<rparr>]\<rparr>))
   \<and> sorted_wrt (entryBefore codeUnitCompare) (localFiles asciiLower codeUnitCompare
     \<lparr>getGeminiMdFilePaths = Some [''/a/notes.md'', ''/a/AGENTS.md'', ''/a/notes.md''],
      getAllDefinitions = Some [\<lparr>metadata = Some \<lparr>filePath = Some ''/a/AGENTS.md''\<rparr>\<rparr>,
                                \<lparr>metadata = Some \<lparr>filePath = Some ''/b/x.md''\<rparr>\<rparr>]\<rparr>)"
proof -
  have ne: "codeUnitCompare ''Agent'' ''Memory'' \<noteq> 0"
    by (simp add: codeUnitCompare_def)
  have ev: "localFiles asciiLower codeUnitCompare
     \<lparr>getGeminiMdFilePaths = Some [''/a/notes.md'', ''/a/AGENTS.md'', ''/a/notes.md''],
      getAllDefinitions = Some [\<lparr>metadata = Some \<lparr>filePath = Some ''/a/AGENTS.md''\<rparr>\<rparr>,
                                \<lparr>metadata = Some \<lparr>filePath = Some ''/b/x.md''\<rparr>\<rparr>]\<rparr>
   = [\<lparr>path = ''/a/AGENTS.md'', type' = ''Agent'', id' = None\<rparr>,
      \<lparr>path = ''/b/x.md'', type' = ''Agent'', id' = None\<rparr>,
      \<lparr>path = ''/a/notes.md'', type' = ''Memory'', id' = None\<rparr>]"
    by (simp add: localFiles_def newSet_def setAdd_def agentPaths_def addDefinition_def
        memoryFiles_def classify_def endsWith_def arraySort_def compareEntries_def
        codeUnitCompare_def asciiLower_def asciiLowerChar_def Let_def)
  show ?thesis
    using localFiles_distinct_sorted [OF codeUnitCompare_consistent ne, of asciiLower
     "\<lparr>getGeminiMdFilePaths = Some [''/a/notes.md'', ''/a/AGENTS.md'', ''/a/notes.md''],
      getAllDefinitions = Some [\<lparr>metadata = Some \<lparr>filePath = Some ''/a/AGENTS.md''\<rparr>\<rparr>,
                                \<lparr>metadata = Some \<lparr>filePath = Some ''/b/x.md''\<rparr>\<rparr>]\<rparr>"]
    by (simp only: ev simp_thms)
qed

text \<open>
  C8. A backing path of a registered definition is classified as Agent
  whatever its name is: the resolver lists it with kind Agent, and lists no
  entry of another kind for it.
\<close>

theorem registered_path_is_Agent:
  assumes "getAllDefinitions config = Some ds" and "d \<in> set ds"
    and "metadata d = Some m" and "filePath m = Some p" and "p \<noteq> []"
  shows "\<lparr>path = p, type' = ''Agent'', id' = None\<rparr> \<in> set (localFiles lower lc config)
    \<and> (\<forall>e \<in> set (localFiles lower lc config). path e = p \<longrightarrow> type' e = ''Agent'')"
proof -
  have mem: "p \<in> set (agentPaths config)" using assms by (rule agentPaths_member)
  then have "classify lower (agentPaths config) p \<in> set (localFiles lower lc config)"
    by (simp add: localFiles_set)
  then have a: "\<lparr>path = p, type' = ''Agent'', id' = None\<rparr> \<in> set (localFiles lower lc config)"
    using mem by (simp add: classify_registered)
  have b: "\<forall>e \<in> set (localFiles lower lc config). path e = p \<longrightarrow> type' e = ''Agent''"
  proof (intro ballI impI)
    fix e assume "e \<in> set (localFiles lower lc config)" and pe: "path e = p"
    then obtain q where e: "e = classify lower (agentPaths config) q"
      by (auto simp: localFiles_set)
    then have "q = p" using pe by (simp add: classify_path)
    then show "type' e = ''Agent''" using e mem by (simp add: classify_registered)
  qed
  show ?thesis using a b by simp
qed

theorem registered_path_is_Agent_witness:
  "\<lparr>path = ''/b/x.md'', type' = ''Agent'', id' = None\<rparr>
     \<in> set (localFiles asciiLower codeUnitCompare
         \<lparr>getGeminiMdFilePaths = Some [''/b/x.md'', ''/a/notes.md''],
          getAllDefinitions = Some [\<lparr>metadata = Some \<lparr>filePath = Some ''/b/x.md''\<rparr>\<rparr>]\<rparr>)
   \<and> \<not> endsWith (asciiLower ''/b/x.md'') ''agents.md''
   \<and> \<not> endsWith (asciiLower ''/b/x.md'') ''.agents''"
  using registered_path_is_Agent [of
      "\<lparr>getGeminiMdFilePaths = Some [''/b/x.md'', ''/a/notes.md''],
        getAllDefinitions = Some [\<lparr>metadata = Some \<lparr>filePath = Some ''/b/x.md''\<rparr>\<rparr>]\<rparr>"
      "[\<lparr>metadata = Some \<lparr>filePath = Some ''/b/x.md''\<rparr>\<rparr>]"
      "\<lparr>metadata = Some \<lparr>filePath = Some ''/b/x.md''\<rparr>\<rparr>"
      "\<lparr>filePath = Some ''/b/x.md''\<rparr>" "''/b/x.md''" asciiLower codeUnitCompare]
  by (simp add: endsWith_def asciiLower_def asciiLowerChar_def)

section \<open>Properties of the key handler and of sessions\<close>

lemma handleKey_toggle:
  "isToggleKey k \<Longrightarrow>
   handleKey lf v k =
     (v\<lparr>viewMode := (if viewMode v = Local then Drive else Local), activeIndex := 0\<rparr>, [])"
  by (simp add: handleKey_def isToggleKey_def Let_def)

lemma handleKey_moveDown:
  "isMoveDownKey k \<Longrightarrow>
   handleKey lf v k =
     (v\<lparr>activeIndex := min (activeIndex v + 1) (max 0 (int (length (files lf v)) - 1))\<rparr>, [])"
  by (simp add: handleKey_def isMoveDownKey_def Let_def)

lemma handleKey_moveUp:
  "isMoveUpKey k \<Longrightarrow> handleKey lf v k = (v\<lparr>activeIndex := max (activeIndex v - 1) 0\<rparr>, [])"
  by (simp add: handleKey_def isMoveUpKey_def Let_def)

lemma handleKey_no_ListFiles: "ListFiles \<notin> set (snd (handleKey lf v k))"
  by (simp add: handleKey_def Let_def split: option.splits)

lemma handleKey_driveFiles: "driveFiles (fst (handleKey lf v k)) = driveFiles v"
  by (simp add: handleKey_def Let_def split: option.splits)

lemma handleKey_isDriveLoading: "isDriveLoading (fst (handleKey lf v k)) = isDriveLoading v"
  by (simp add: handleKey_def Let_def split: option.splits)

lemma handleKey_viewMode_changes:
  "viewMode (fst (handleKey lf v k)) \<noteq> viewMode v \<Longrightarrow> isToggleKey k"
  by (simp add: handleKey_def isToggleKey_def Let_def split: option.splits if_splits)

lemma fetchCount_append:
  "fetchCount (s\<lparr>effects := effects s @ es\<rparr>) = fetchCount s + length (filter (\<lambda>e. e = ListFiles) es)"
  by (simp add: fetchCount_def)

lemma filter_no_ListFiles:
  "ListFiles \<notin> set es \<Longrightarrow> filter (\<lambda>e. e = ListFiles) es = []"
  by (induction es) auto

lemma loadingInv_initial: "loadingInv initialSession"
  by (simp add: loadingInv_def initialSession_def)

lemma step_KeyPress_cases:
  obtains (same) "viewMode (fst (handleKey lf (view s) k)) = viewMode (view s)"
      "step lf s (KeyPress k) =
         s\<lparr>view := fst (handleKey lf (view s) k),
           effects := effects s @ snd (handleKey lf (view s) k)\<rparr>"
  | (changed) "isToggleKey k"
      "step lf s (KeyPress k) =
         driveEffect (s\<lparr>view := (view s)\<lparr>viewMode := (if viewMode (view s) = Local then Drive else Local),
                                        activeIndex := 0\<rparr>\<rparr>)"
proof (cases "viewMode (fst (handleKey lf (view s) k)) = viewMode (view s)")
  case True
  then have "step lf s (KeyPress k) =
         s\<lparr>view := fst (handleKey lf (view s) k),
           effects := effects s @ snd (handleKey lf (view s) k)\<rparr>"
    by (simp add: Let_def split_beta)
  with True show ?thesis by (rule same)
next
  case False
  then have t: "isToggleKey k" by (rule handleKey_viewMode_changes)
  have "step lf s (KeyPress k) =
         driveEffect (s\<lparr>view := (view s)\<lparr>viewMode := (if viewMode (view s) = Local then Drive else Local),
                                        activeIndex := 0\<rparr>\<rparr>)"
    using False by (simp add: Let_def split_beta handleKey_toggle [OF t])
  with t show ?thesis by (rule changed)
qed

lemma step_loadingInv: "loadingInv s \<Longrightarrow> loadingInv (step lf s e)"
proof (cases e)
  case (KeyPress k)
  assume i: "loadingInv s"
  show ?thesis
  proof (cases rule: step_KeyPress_cases [of lf s k])
    case same
    then show ?thesis using i KeyPress
      by (simp add: loadingInv_def handleKey_driveFiles handleKey_isDriveLoading)
  next
    case changed
    then show ?thesis using i KeyPress
      by (auto simp add: loadingInv_def driveEffect_def)
  qed
next
  case (ListFilesResolved f)
  assume "loadingInv s"
  then show ?thesis using ListFilesResolved by (auto simp: loadingInv_def)
next
  case (ListFilesRejected m)
  assume "loadingInv s"
  then show ?thesis using ListFilesRejected by (auto simp: loadingInv_def)
next
  case (DownloadSettled r)
  assume "loadingInv s"
  then show ?thesis using DownloadSettled by (cases r) (simp_all add: loadingInv_def)
next
  case (UploadSettled p r)
  assume "loadingInv s"
  then show ?thesis using UploadSettled by (cases r) (simp_all add: loadingInv_def)
qed

lemma run_loadingInv: "loadingInv s \<Longrightarrow> loadingInv (run lf s events)"
  unfolding run_def by (induction events arbitrary: s) (simp_all add: step_loadingInv)

lemma run_append: "run lf s (xs @ ys) = run lf (run lf s xs) ys"
  by (simp add: run_def)

lemma run_Cons: "run lf s (e # es) = run lf (step lf s e) es"
  by (simp add: run_def)

lemma run_Nil: "run lf s [] = s"
  by (simp add: run_def)

text \<open>A step starts a fetch only as the claim says.\<close>

lemma step_fetch_start:
  assumes i: "loadingInv s" and ne: "fetchCount (step lf s e) \<noteq> fetchCount s"
  shows "(\<exists>k. e = KeyPress k \<and> isToggleKey k)
    \<and> viewMode (view s) = Local \<and> viewMode (view (step lf s e)) = Drive
    \<and> driveFiles (view s) = [] \<and> pendingLists s = 0 \<and> \<not> isDriveLoading (view s)
    \<and> fetchCount (step lf s e) = Suc (fetchCount s)
    \<and> pendingLists (step lf s e) = 1 \<and> isDriveLoading (view (step lf s e))"
proof (cases e)
  case (KeyPress k)
  show ?thesis
  proof (cases rule: step_KeyPress_cases [of lf s k])
    case same
    then have "fetchCount (step lf s e) = fetchCount s"
      using KeyPress handleKey_no_ListFiles [of lf "view s" k]
      by (simp add: fetchCount_def filter_no_ListFiles)
    with ne show ?thesis by simp
  next
    case changed
    then show ?thesis using i ne KeyPress
      by (auto simp add: loadingInv_def driveEffect_def fetchCount_def split: if_splits)
  qed
next
  case (ListFilesResolved f)
  then show ?thesis using ne by (simp add: fetchCount_def split: if_splits)
next
  case (ListFilesRejected m)
  then show ?thesis using ne by (simp add: fetchCount_def split: if_splits)
next
  case (DownloadSettled r)
  then show ?thesis using ne by (cases r) (simp_all add: fetchCount_def)
next
  case (UploadSettled p r)
  then show ?thesis using ne by (cases r) (simp_all add: fetchCount_def)
qed

lemma step_populated:
  assumes i: "loadingInv s" and p: "driveFiles (view s) \<noteq> []"
  shows "driveFiles (view (step lf s e)) = driveFiles (view s)
    \<and> fetchCount (step lf s e) = fetchCount s"
proof -
  have f: "fetchCount (step lf s e) = fetchCount s"
    using step_fetch_start [OF i, of lf e] p by blast
  have n: "pendingLists s = 0" using i p by (auto simp: loadingInv_def)
  have "driveFiles (view (step lf s e)) = driveFiles (view s)"
  proof (cases e)
    case (KeyPress k)
    show ?thesis
    proof (cases rule: step_KeyPress_cases [of lf s k])
      case same
      then show ?thesis using KeyPress by (simp add: handleKey_driveFiles)
    next
      case changed
      then show ?thesis using KeyPress by (simp add: driveEffect_def)
    qed
  next
    case (ListFilesResolved f)
    then show ?thesis using n by simp
  next
    case (ListFilesRejected m)
    then show ?thesis using n by simp
  next
    case (DownloadSettled r)
    then show ?thesis by (cases r) simp_all
  next
    case (UploadSettled p r)
    then show ?thesis by (cases r) simp_all
  qed
  with f show ?thesis by simp
qed

lemma run_populated:
  "loadingInv s \<Longrightarrow> driveFiles (view s) \<noteq> [] \<Longrightarrow>
   driveFiles (view (run lf s events)) = driveFiles (view s)
   \<and> fetchCount (run lf s events) = fetchCount s"
proof (induction events arbitrary: s)
  case Nil
  show ?case by (simp add: run_Nil)
next
  case (Cons e es)
  have a: "loadingInv (step lf s e)" using Cons.prems(1) by (rule step_loadingInv)
  have b: "driveFiles (view (step lf s e)) = driveFiles (view s)
      \<and> fetchCount (step lf s e) = fetchCount s"
    using Cons.prems by (rule step_populated)
  then have c: "driveFiles (view (step lf s e)) \<noteq> []" using Cons.prems(2) by simp
  show ?case using Cons.IH [OF a c] b by (simp add: run_Cons)
qed

lemma step_toggle:
  "isToggleKey k \<Longrightarrow>
   step lf s (KeyPress k) =
     driveEffect (s\<lparr>view := (view s)\<lparr>viewMode := (if viewMode (view s) = Local then Drive else Local),
                                    activeIndex := 0\<rparr>\<rparr>)"
  by (simp add: handleKey_toggle Let_def)

lemma step_moveUp:
  "isMoveUpKey k \<Longrightarrow>
   step lf s (KeyPress k) = s\<lparr>view := (view s)\<lparr>activeIndex := max (activeIndex (view s) - 1) 0\<rparr>\<rparr>"
  by (simp add: handleKey_moveUp Let_def)

lemma step_moveDown:
  "isMoveDownKey k \<Longrightarrow>
   step lf s (KeyPress k) =
     s\<lparr>view := (view s)\<lparr>activeIndex :=
          min (activeIndex (view s) + 1) (max 0 (int (length (files lf (view s))) - 1))\<rparr>\<rparr>"
  by (simp add: handleKey_moveDown Let_def)

lemma run_replicate_fixed: "step lf s e = s \<Longrightarrow> run lf s (replicate n e) = s"
  by (induction n) (simp_all add: run_Nil run_Cons)

lemma step_KeyPress_counts:
  "driveFiles (view (step lf s (KeyPress k))) = driveFiles (view s)
   \<and> pendingLists (step lf s (KeyPress k)) + fetchCount s
       = pendingLists s + fetchCount (step lf s (KeyPress k))"
proof (cases rule: step_KeyPress_cases [of lf s k])
  case same
  then show ?thesis using handleKey_no_ListFiles [of lf "view s" k]
    by (simp add: handleKey_driveFiles fetchCount_def filter_no_ListFiles)
next
  case changed
  then show ?thesis by (simp add: driveEffect_def fetchCount_def)
qed

lemma run_KeyPress_counts:
  "driveFiles (view (run lf s (map KeyPress ks))) = driveFiles (view s)
   \<and> pendingLists (run lf s (map KeyPress ks)) + fetchCount s
       = pendingLists s + fetchCount (run lf s (map KeyPress ks))"
proof (induction ks arbitrary: s)
  case Nil
  show ?case by (simp add: run_Nil)
next
  case (Cons k ks)
  show ?case
    using Cons.IH [of "step lf s (KeyPress k)"] step_KeyPress_counts [of lf s k]
    by (simp add: run_Cons)
qed

lemma toggle_to_Drive_fetches:
  assumes i: "loadingInv u" and e: "driveFiles (view u) = []" and p: "pendingLists u = 0"
    and l: "viewMode (view u) = Local" and k: "isToggleKey k"
  shows "effects (step lf u (KeyPress k)) = effects u @ [ListFiles]
    \<and> fetchCount (step lf u (KeyPress k)) = Suc (fetchCount u)
    \<and> isDriveLoading (view (step lf u (KeyPress k)))
    \<and> pendingLists (step lf u (KeyPress k)) = 1
    \<and> viewMode (view (step lf u (KeyPress k))) = Drive"
proof -
  have "\<not> isDriveLoading (view u)" using i p by (simp add: loadingInv_def)
  then show ?thesis using e p l
    by (simp add: step_toggle [OF k] driveEffect_def fetchCount_def del: step.simps)
qed

text \<open>
  C5. In every session, toggling the source resets the cursor to 0 and flips
  the source; a step starts a remote list fetch only if it is a toggle from
  Local to Drive, taken with an empty cache and no fetch in flight, and then it
  starts exactly one; and once the cache has entries, no later event starts a
  fetch.
\<close>

theorem toggle_resets_cursor_and_gates_fetch:
  assumes "s = run lf initialSession events"
  shows "(isToggleKey k \<longrightarrow>
            activeIndex (view (step lf s (KeyPress k))) = 0
            \<and> viewMode (view (step lf s (KeyPress k)))
                = (if viewMode (view s) = Local then Drive else Local))
    \<and> (fetchCount (step lf s e) \<noteq> fetchCount s \<longrightarrow>
          (\<exists>k'. e = KeyPress k' \<and> isToggleKey k')
          \<and> viewMode (view s) = Local \<and> viewMode (view (step lf s e)) = Drive
          \<and> driveFiles (view s) = [] \<and> pendingLists s = 0 \<and> \<not> isDriveLoading (view s)
          \<and> fetchCount (step lf s e) = Suc (fetchCount s))
    \<and> (driveFiles (view s) \<noteq> [] \<longrightarrow> fetchCount (run lf s later) = fetchCount s)"
proof -
  have i: "loadingInv s" unfolding assms by (rule run_loadingInv [OF loadingInv_initial])
  have a: "isToggleKey k \<longrightarrow>
            activeIndex (view (step lf s (KeyPress k))) = 0
            \<and> viewMode (view (step lf s (KeyPress k)))
                = (if viewMode (view s) = Local then Drive else Local)"
    by (simp add: step_toggle driveEffect_def del: step.simps)
  have b: "fetchCount (step lf s e) \<noteq> fetchCount s \<longrightarrow>
          (\<exists>k'. e = KeyPress k' \<and> isToggleKey k')
          \<and> viewMode (view s) = Local \<and> viewMode (view (step lf s e)) = Drive
          \<and> driveFiles (view s) = [] \<and> pendingLists s = 0 \<and> \<not> isDriveLoading (view s)
          \<and> fetchCount (step lf s e) = Suc (fetchCount s)"
    using step_fetch_start [OF i, of lf e] by blast
  have c: "driveFiles (view s) \<noteq> [] \<longrightarrow> fetchCount (run lf s later) = fetchCount s"
    using run_populated [OF i, of lf later] by blast
  show ?thesis using a b c by blast
qed

theorem toggle_resets_cursor_and_gates_fetch_witness:
  "isToggleKey \<lparr>name = ''i'', matched = [IMPORT_FROM_DRIVE]\<rparr>
   \<and> activeIndex (view (step [] (run [] initialSession
        [KeyPress \<lparr>name = ''i'', matched = [IMPORT_FROM_DRIVE]\<rparr>,
         ListFilesResolved [(''x1'', ''a.md''), (''x2'', ''b.md'')],
         KeyPress \<lparr>name = ''down'', matched = [MOVE_DOWN]\<rparr>])
        (KeyPress \<lparr>name = ''i'', matched = [IMPORT_FROM_DRIVE]\<rparr>))) = 0
   \<and> fetchCount (step [] (run [] initialSession [])
        (KeyPress \<lparr>name = ''i'', matched = [IMPORT_FROM_DRIVE]\<rparr>))
       \<noteq> fetchCount (run [] initialSession [])
   \<and> pendingLists (run [] initialSession []) = 0
   \<and> driveFiles (view (run [] initialSession
        [KeyPress \<lparr>name = ''i'', matched = [IMPORT_FROM_DRIVE]\<rparr>,
         ListFilesResolved [(''x1'', ''a.md''), (''x2'', ''b.md'')],
         KeyPress \<lparr>name = ''down'', matched = [MOVE_DOWN]\<rparr>])) \<noteq> []
   \<and> fetchCount (run [] (run [] initialSession
        [KeyPress \<lparr>name = ''i'', matched = [IMPORT_FROM_DRIVE]\<rparr>,
         ListFilesResolved [(''x1'', ''a.md''), (''x2'', ''b.md'')],
         KeyPress \<lparr>name = ''down'', matched = [MOVE_DOWN]\<rparr>])
        [KeyPress \<lparr>name = ''i'', matched = [IMPORT_FROM_DRIVE]\<rparr>,
         KeyPress \<lparr>name = ''i'', matched = [IMPORT_FROM_DRIVE]\<rparr>]) = 1"
  using toggle_resets_cursor_and_gates_fetch [OF refl,
      where k = "\<lparr>name = ''i'', matched = [IMPORT_FROM_DRIVE]\<rparr>" and lf = "[]"
      and events = "[KeyPress \<lparr>name = ''i'', matched = [IMPORT_FROM_DRIVE]\<rparr>,
        ListFilesResolved [(''x1'', ''a.md''), (''x2'', ''b.md'')],
        KeyPress \<lparr>name = ''down'', matched = [MOVE_DOWN]\<rparr>]"
      and e = "KeyPress \<lparr>name = ''i'', matched = [IMPORT_FROM_DRIVE]\<rparr>"
      and later = "[KeyPress \<lparr>name = ''i'', matched = [IMPORT_FROM_DRIVE]\<rparr>,
        KeyPress \<lparr>name = ''i'', matched = [IMPORT_FROM_DRIVE]\<rparr>]"]
    toggle_resets_cursor_and_gates_fetch [OF refl,
      where k = "\<lparr>name = ''i'', matched = [IMPORT_FROM_DRIVE]\<rparr>" and lf = "[]"
      and events = "[]"
      and e = "KeyPress \<lparr>name = ''i'', matched = [IMPORT_FROM_DRIVE]\<rparr>"
      and later = "[]"]
  by (simp add: run_def initialSession_def handleKey_def isToggleKey_def keyMatchers_def
      driveEffect_def fetchCount_def files_def at_def driveEntry_def Let_def)

lemma retry_after_empty:
  assumes it: "loadingInv t" and e: "driveFiles (view t) = []" and p: "pendingLists t = 0"
    and u: "u = run lf t (map KeyPress ks)"
    and h: "fetchCount u = fetchCount t" "viewMode (view u) = Local" "isToggleKey k"
  shows "effects (step lf u (KeyPress k)) = effects u @ [ListFiles]
    \<and> fetchCount (step lf u (KeyPress k)) = Suc (fetchCount t)
    \<and> isDriveLoading (view (step lf u (KeyPress k)))"
proof -
  have iu: "loadingInv u" unfolding u using it by (rule run_loadingInv)
  have cu: "driveFiles (view u) = driveFiles (view t)
      \<and> pendingLists u + fetchCount t = pendingLists t + fetchCount u"
    unfolding u by (rule run_KeyPress_counts)
  have eu: "driveFiles (view u) = []" using cu e by simp
  have pu: "pendingLists u = 0" using cu p h(1) by simp
  show ?thesis using toggle_to_Drive_fetches [OF iu eu pu h(2) h(3), of lf] h(1) by simp
qed

lemma pending_reachable:
  assumes "s = run lf initialSession events" and "0 < pendingLists s"
  shows "loadingInv s \<and> pendingLists s = 1 \<and> driveFiles (view s) = []"
proof -
  have i: "loadingInv s" unfolding assms(1) by (rule run_loadingInv [OF loadingInv_initial])
  then show ?thesis using assms(2) by (auto simp: loadingInv_def)
qed

text \<open>
  C9. Moving the cursor is idempotent at the boundaries: any number of move-up
  key presses at index 0 leave the cursor at 0, and any number of move-down key
  presses at the last index of the active list leave it at the last index (at
  0 for an empty list).
\<close>

theorem moveCursor_idempotent_at_boundaries:
  "(isMoveUpKey k \<and> activeIndex (view s) = 0 \<longrightarrow>
      activeIndex (view (run lf s (replicate n (KeyPress k)))) = 0)
   \<and> (isMoveDownKey k \<and> files lf (view s) \<noteq> []
        \<and> activeIndex (view s) = int (length (files lf (view s))) - 1 \<longrightarrow>
      activeIndex (view (run lf s (replicate n (KeyPress k))))
        = int (length (files lf (view s))) - 1)
   \<and> (isMoveDownKey k \<and> files lf (view s) = [] \<and> activeIndex (view s) = 0 \<longrightarrow>
      activeIndex (view (run lf s (replicate n (KeyPress k)))) = 0)"
proof (intro conjI impI)
  assume h: "isMoveUpKey k \<and> activeIndex (view s) = 0"
  then have "step lf s (KeyPress k) = s" by (simp add: step_moveUp del: step.simps)
  then have "run lf s (replicate n (KeyPress k)) = s" by (rule run_replicate_fixed)
  then show "activeIndex (view (run lf s (replicate n (KeyPress k)))) = 0" using h by simp
next
  assume h: "isMoveDownKey k \<and> files lf (view s) \<noteq> []
        \<and> activeIndex (view s) = int (length (files lf (view s))) - 1"
  then have "0 < length (files lf (view s))" by simp
  then have "min (activeIndex (view s) + 1) (max 0 (int (length (files lf (view s))) - 1))
      = activeIndex (view s)" using h by simp
  then have "step lf s (KeyPress k) = s" using h by (simp add: step_moveDown del: step.simps)
  then have "run lf s (replicate n (KeyPress k)) = s" by (rule run_replicate_fixed)
  then show "activeIndex (view (run lf s (replicate n (KeyPress k))))
        = int (length (files lf (view s))) - 1" using h by simp
next
  assume h: "isMoveDownKey k \<and> files lf (view s) = [] \<and> activeIndex (view s) = 0"
  then have "step lf s (KeyPress k) = s" by (simp add: step_moveDown del: step.simps)
  then have "run lf s (replicate n (KeyPress k)) = s" by (rule run_replicate_fixed)
  then show "activeIndex (view (run lf s (replicate n (KeyPress k)))) = 0" using h by simp
qed

theorem moveCursor_idempotent_at_boundaries_witness:
  "isMoveUpKey \<lparr>name = ''up'', matched = [MOVE_UP]\<rparr>
   \<and> activeIndex (view initialSession) = 0
   \<and> activeIndex (view (run [\<lparr>path = ''/a/AGENTS.md'', type' = ''Agent'', id' = None\<rparr>,
                               \<lparr>path = ''/a/notes.md'', type' = ''Memory'', id' = None\<rparr>]
        initialSession (replicate 3 (KeyPress \<lparr>name = ''up'', matched = [MOVE_UP]\<rparr>)))) = 0
   \<and> isMoveDownKey \<lparr>name = ''down'', matched = [MOVE_DOWN]\<rparr>
   \<and> activeIndex (view (initialSession\<lparr>view := (view initialSession)\<lparr>activeIndex := 1\<rparr>\<rparr>))
       = int (length [\<lparr>path = ''/a/AGENTS.md'', type' = ''Agent'', id' = None\<rparr>,
                      \<lparr>path = ''/a/notes.md'', type' = ''Memory'', id' = None\<rparr>]) - 1
   \<and> activeIndex (view (run [\<lparr>path = ''/a/AGENTS.md'', type' = ''Agent'', id' = None\<rparr>,
                               \<lparr>path = ''/a/notes.md'', type' = ''Memory'', id' = None\<rparr>]
        (initialSession\<lparr>view := (view initialSession)\<lparr>activeIndex := 1\<rparr>\<rparr>)
        (replicate 3 (KeyPress \<lparr>name = ''down'', matched = [MOVE_DOWN]\<rparr>)))) = 1
   \<and> activeIndex (view (run [] initialSession
        (replicate 2 (KeyPress \<lparr>name = ''down'', matched = [MOVE_DOWN]\<rparr>)))) = 0"
  using moveCursor_idempotent_at_boundaries [where k = "\<lparr>name = ''up'', matched = [MOVE_UP]\<rparr>"
      and s = initialSession and n = 3
      and lf = "[\<lparr>path = ''/a/AGENTS.md'', type' = ''Agent'', id' = None\<rparr>,
                 \<lparr>path = ''/a/notes.md'', type' = ''Memory'', id' = None\<rparr>]"]
    moveCursor_idempotent_at_boundaries [where k = "\<lparr>name = ''down'', matched = [MOVE_DOWN]\<rparr>"
      and s = "initialSession\<lparr>view := (view initialSession)\<lparr>activeIndex := 1\<rparr>\<rparr>" and n = 3
      and lf = "[\<lparr>path = ''/a/AGENTS.md'', type' = ''Agent'', id' = None\<rparr>,
                 \<lparr>path = ''/a/notes.md'', type' = ''Memory'', id' = None\<rparr>]"]
    moveCursor_idempotent_at_boundaries [where k = "\<lparr>name = ''down'', matched = [MOVE_DOWN]\<rparr>"
      and s = initialSession and n = 2 and lf = "[]"]
  by (simp add: initialSession_def isMoveUpKey_def isMoveDownKey_def keyMatchers_def files_def)

section \<open>Properties of DriveManager and of the editor action\<close>

lemma listFiles_after_client:
  "getOauthClient w = Inr () \<Longrightarrow>
   (\<exists>fs. fst (listFiles w) = Inr fs)
   \<and> (\<forall>e. getOrCreateWorkspaceFolder w = Inl e \<longrightarrow>
          listFiles w = (Inr [], [(''Failed to list files from Drive'', e)]))
   \<and> (\<forall>folderId e. getOrCreateWorkspaceFolder w = Inr folderId \<and> files_list w folderId = Inl e \<longrightarrow>
          listFiles w = (Inr [], [(''Failed to list files from Drive'', e)]))"
  by (auto simp: listFiles_def getDriveClient_def split: sum.splits option.splits)

text \<open>
  The promise of \<open>listFiles\<close> as the event it is for a session of the browser.
  It rejects exactly when \<open>getOauthClient\<close> does.
\<close>

lemma listFilesEvent_rejected:
  "(listFilesEvent w = ListFilesRejected e) = (getOauthClient w = Inl e)"
  by (auto simp: listFilesEvent_def listFiles_def getDriveClient_def
      split: sum.splits option.splits)

lemma destDir_uppercase: "destDir w ''spec.AGENTS'' = join w (getGlobalGeminiDir w) ''skills''"
  by (simp add: destDir_def endsWith_def)

lemma downloadFile_success:
  "getOauthClient w = Inr () \<Longrightarrow> files_get w fileId = Inr data \<Longrightarrow>
   mkdirError w (destDir w fileName) = None \<Longrightarrow>
   writeFileError w (join w (destDir w fileName) fileName) = None \<Longrightarrow>
   downloadFile w fs fileId fileName =
     (Inr (join w (destDir w fileName) fileName),
      fs\<lparr>directories := insert (destDir w fileName) (directories fs),
         contents := (contents fs)(join w (destDir w fileName) fileName \<mapsto> data)\<rparr>,
      [])"
  by (simp add: downloadFile_def getDriveClient_def Let_def)

text \<open>
  C2. When \<open>getOauthClient\<close> rejects, the first await of \<open>listFiles\<close> rejects
  outside the \<open>try\<close> block: the promise of \<open>listFiles\<close> rejects with that error
  and nothing is logged.
\<close>

theorem listFiles_rejects_when_client_fails:
  "listFiles (w\<lparr>getOauthClient := Inl e\<rparr>) = (Inl e, [])"
  by (simp add: listFiles_def getDriveClient_def)

text \<open>
  C1. A file named \<open>spec.agents\<close> is written to the current working directory,
  not to the skills directory: \<open>downloadFile\<close> tests for the suffix \<open>.AGENTS\<close>
  exactly, whereas the resolver of the browser lower-cases the name and
  classifies the same name as Agent.
\<close>

theorem downloadFile_lowercase_suffix_goes_to_cwd:
  "destDir w ''spec.agents'' = cwd w
   \<and> downloadFile
        (w\<lparr>getOauthClient := Inr (), files_get := (\<lambda>i. Inr data),
           mkdirError := (\<lambda>p. None), writeFileError := (\<lambda>p. None)\<rparr>)
        fs ''xyz'' ''spec.agents''
      = (Inr (join w (cwd w) ''spec.agents''),
         fs\<lparr>directories := insert (cwd w) (directories fs),
            contents := (contents fs)(join w (cwd w) ''spec.agents'' \<mapsto> data)\<rparr>,
         [])
   \<and> type' (classify asciiLower [] ''spec.agents'') = ''Agent''"
  by (simp add: downloadFile_def getDriveClient_def destDir_def endsWith_def Let_def
      classify_def asciiLower_def asciiLowerChar_def)

lemma setRawMode_trace:
  "trace (setRawMode w b t) = trace t @ (if setRawModeDefined w then [SetRawMode b] else [])"
  by (simp add: setRawMode_def)

lemma setRawMode_rawMode:
  "rawMode (setRawMode w b t) = (if setRawModeDefined w then b else rawMode t)"
  by (simp add: setRawMode_def)

lemma openFileInEditor_trace:
  "trace (openFileInEditor w t p) =
     trace t @ (if setRawModeDefined w then [SetRawMode False] else [])
     @ [SpawnSync (fst (editorCommand w p)) (snd (editorCommand w p))]
     @ (case editorFailure w p of
          None \<Rightarrow> []
        | Some err \<Rightarrow> [EditorFeedback ''error'' ''[MdsBrowser] external editor error'' err])
     @ (if setRawModeDefined w then [SetRawMode True] else []) @ [ExternalEditorClosed]"
  by (simp add: openFileInEditor_def Let_def setRawMode_trace split: option.splits)

lemma openFileInEditor_rawMode:
  "rawMode (openFileInEditor w t p) = (if setRawModeDefined w then True else rawMode t)"
  by (simp add: openFileInEditor_def Let_def setRawMode_rawMode split: option.splits)

text \<open>
  C7. On every exit path of the open-in-editor action raw mode is on afterwards
  if it was on before, and \<open>setRawMode (true)\<close> is the last call on the terminal
  before the closing event; when the spawn throws, returns an error or returns
  an exit status other than 0, exactly one error feedback event is emitted
  between the spawn and the restoring call, and none is when the editor exits
  with status 0.
\<close>

theorem raw_mode_restored_on_every_exit:
  "(rawMode t \<longrightarrow> rawMode (openFileInEditor w t p))
   \<and> (setRawModeDefined w \<longrightarrow>
        rawMode (openFileInEditor w t p)
        \<and> (\<exists>before. trace (openFileInEditor w t p)
               = before @ [SetRawMode True, ExternalEditorClosed]))
   \<and> (spawnSync w (fst (editorCommand w p)) (snd (editorCommand w p))
         = Inr \<lparr>status = Some 0, error = None\<rparr> \<longrightarrow>
        trace (openFileInEditor w t p) =
          trace t @ (if setRawModeDefined w then [SetRawMode False] else [])
          @ [SpawnSync (fst (editorCommand w p)) (snd (editorCommand w p))]
          @ (if setRawModeDefined w then [SetRawMode True] else []) @ [ExternalEditorClosed])
   \<and> ((\<exists>e. spawnSync w (fst (editorCommand w p)) (snd (editorCommand w p)) = Inl e)
        \<or> (\<exists>r. spawnSync w (fst (editorCommand w p)) (snd (editorCommand w p)) = Inr r
               \<and> (error r \<noteq> None \<or> (\<exists>n. status r = Some n \<and> n \<noteq> 0))) \<longrightarrow>
        (\<exists>err. trace (openFileInEditor w t p) =
          trace t @ (if setRawModeDefined w then [SetRawMode False] else [])
          @ [SpawnSync (fst (editorCommand w p)) (snd (editorCommand w p)),
             EditorFeedback ''error'' ''[MdsBrowser] external editor error'' err]
          @ (if setRawModeDefined w then [SetRawMode True] else []) @ [ExternalEditorClosed]))"
proof (intro conjI impI)
  assume "rawMode t"
  then show "rawMode (openFileInEditor w t p)" by (simp add: openFileInEditor_rawMode)
next
  assume "setRawModeDefined w"
  then show "rawMode (openFileInEditor w t p)" by (simp add: openFileInEditor_rawMode)
next
  assume d: "setRawModeDefined w"
  show "\<exists>before. trace (openFileInEditor w t p) = before @ [SetRawMode True, ExternalEditorClosed]"
    using d by (simp add: openFileInEditor_trace split: option.splits)
next
  assume "spawnSync w (fst (editorCommand w p)) (snd (editorCommand w p))
         = Inr \<lparr>status = Some 0, error = None\<rparr>"
  then have "editorFailure w p = None" by (simp add: editorFailure_def)
  then show "trace (openFileInEditor w t p) =
          trace t @ (if setRawModeDefined w then [SetRawMode False] else [])
          @ [SpawnSync (fst (editorCommand w p)) (snd (editorCommand w p))]
          @ (if setRawModeDefined w then [SetRawMode True] else []) @ [ExternalEditorClosed]"
    by (simp add: openFileInEditor_trace)
next
  assume "(\<exists>e. spawnSync w (fst (editorCommand w p)) (snd (editorCommand w p)) = Inl e)
        \<or> (\<exists>r. spawnSync w (fst (editorCommand w p)) (snd (editorCommand w p)) = Inr r
               \<and> (error r \<noteq> None \<or> (\<exists>n. status r = Some n \<and> n \<noteq> 0)))"
  then have "editorFailure w p \<noteq> None"
    by (auto simp: editorFailure_def split: option.splits)
  then obtain err where "editorFailure w p = Some err" by blast
  then show "\<exists>err. trace (openFileInEditor w t p) =
          trace t @ (if setRawModeDefined w then [SetRawMode False] else [])
          @ [SpawnSync (fst (editorCommand w p)) (snd (editorCommand w p)),
             EditorFeedback ''error'' ''[MdsBrowser] external editor error'' err]
          @ (if setRawModeDefined w then [SetRawMode True] else []) @ [ExternalEditorClosed]"
    by (simp add: openFileInEditor_trace)
qed

theorem raw_mode_restored_on_every_exit_witness:
  "rawMode (openFileInEditor
      \<lparr>preferredEditor = None, getEditorCommand = (\<lambda>e. ''code''), isGuiEditor = (\<lambda>e. True),
       envVISUAL = None, envEDITOR = Some ''nano'', platform = ''linux'',
       setRawModeDefined = True,
       spawnSync = (\<lambda>c a. Inr \<lparr>status = Some 1, error = None\<rparr>)\<rparr>
      \<lparr>rawMode = True, trace = []\<rparr> ''/a/notes.md'')
   \<and> trace (openFileInEditor
      \<lparr>preferredEditor = None, getEditorCommand = (\<lambda>e. ''code''), isGuiEditor = (\<lambda>e. True),
       envVISUAL = None, envEDITOR = Some ''nano'', platform = ''linux'',
       setRawModeDefined = True,
       spawnSync = (\<lambda>c a. Inr \<lparr>status = Some 1, error = None\<rparr>)\<rparr>
      \<lparr>rawMode = True, trace = []\<rparr> ''/a/notes.md'')
     = [SetRawMode False, SpawnSync ''nano'' [''/a/notes.md''],
        EditorFeedback ''error'' ''[MdsBrowser] external editor error'' (ExitStatus 1),
        SetRawMode True, ExternalEditorClosed]
   \<and> trace (openFileInEditor
      \<lparr>preferredEditor = Some ''vscode'', getEditorCommand = (\<lambda>e. ''code''),
       isGuiEditor = (\<lambda>e. True),
       envVISUAL = None, envEDITOR = None, platform = ''linux'',
       setRawModeDefined = True,
       spawnSync = (\<lambda>c a. Inr \<lparr>status = Some 0, error = None\<rparr>)\<rparr>
      \<lparr>rawMode = True, trace = []\<rparr> ''/a/notes.md'')
     = [SetRawMode False, SpawnSync ''code'' [''--wait'', ''/a/notes.md''],
        SetRawMode True, ExternalEditorClosed]
   \<and> trace (openFileInEditor
      \<lparr>preferredEditor = None, getEditorCommand = (\<lambda>e. ''code''), isGuiEditor = (\<lambda>e. True),
       envVISUAL = None, envEDITOR = None, platform = ''linux'',
       setRawModeDefined = True,
       spawnSync = (\<lambda>c a. Inr \<lparr>status = None, error = Some ''ENOENT''\<rparr>)\<rparr>
      \<lparr>rawMode = True, trace = []\<rparr> ''/a/notes.md'')
     = [SetRawMode False, SpawnSync ''vi'' [''/a/notes.md''],
        EditorFeedback ''error'' ''[MdsBrowser] external editor error'' (SpawnError ''ENOENT''),
        SetRawMode True, ExternalEditorClosed]"
  using raw_mode_restored_on_every_exit [where t = "\<lparr>rawMode = True, trace = []\<rparr>"
      and p = "''/a/notes.md''"
      and w = "\<lparr>preferredEditor = None, getEditorCommand = (\<lambda>e. ''code''),
        isGuiEditor = (\<lambda>e. True),
        envVISUAL = None, envEDITOR = Some ''nano'', platform = ''linux'',
        setRawModeDefined = True,
        spawnSync = (\<lambda>c a. Inr \<lparr>status = Some 1, error = None\<rparr>)\<rparr>"]
    raw_mode_restored_on_every_exit [where t = "\<lparr>rawMode = True, trace = []\<rparr>"
      and p = "''/a/notes.md''"
      and w = "\<lparr>preferredEditor = Some ''vscode'', getEditorCommand = (\<lambda>e. ''code''),
        isGuiEditor = (\<lambda>e. True),
        envVISUAL = None, envEDITOR = None, platform = ''linux'',
        setRawModeDefined = True,
        spawnSync = (\<lambda>c a. Inr \<lparr>status = Some 0, error = None\<rparr>)\<rparr>"]
    raw_mode_restored_on_every_exit [where t = "\<lparr>rawMode = True, trace = []\<rparr>"
      and p = "''/a/notes.md''"
      and w = "\<lparr>preferredEditor = None, getEditorCommand = (\<lambda>e. ''code''),
        isGuiEditor = (\<lambda>e. True),
        envVISUAL = None, envEDITOR = None, platform = ''linux'',
        setRawModeDefined = True,
        spawnSync = (\<lambda>c a. Inr \<lparr>status = None, error = Some ''ENOENT''\<rparr>)\<rparr>"]
  by (simp add: openFileInEditor_def editorCommand_def environmentEditor_def editorFailure_def
      setRawMode_def Let_def)

lemma listFiles_swallowed:
  assumes "getOauthClient w = Inr ()"
    and "getOrCreateWorkspaceFolder w = Inl e
      \<or> (\<exists>folderId. getOrCreateWorkspaceFolder w = Inr folderId \<and> files_list w folderId = Inl e)"
  shows "listFiles w = (Inr [], [(''Failed to list files from Drive'', e)])"
  using assms by (auto simp: listFiles_def getDriveClient_def)

lemma listFilesEvent_cases:
  "(\<exists>e. listFilesEvent w = ListFilesRejected e) \<or> (\<exists>f. listFilesEvent w = ListFilesResolved f)"
  by (simp add: listFilesEvent_def split: sum.splits)

text \<open>
  C6. A remote list fetch in flight that fails settles in one of two ways.
  When the Drive client cannot be obtained the promise of \<open>listFiles\<close> rejects:
  exactly one feedback event is emitted, of level error and carrying the
  message, and the cache stays empty. When the folder lookup or \<open>files.list\<close>
  fails, \<open>listFiles\<close> logs the error and resolves with the empty list: no
  feedback event is emitted, and the cache is empty. On every outcome, success
  included, the loading flag is cleared; and while the cache is empty, after any
  further key presses that have not yet started a fetch, a toggle from Local to
  Drive starts one.
\<close>

theorem list_failure_feedback_and_retry:
  assumes "s = run lf initialSession events" and "0 < pendingLists s"
    and "t = step lf s (listFilesEvent w)"
    and "u = run lf t (map KeyPress ks)"
  shows "(getOauthClient w = Inl e \<longrightarrow>
            listFiles w = (Inl e, [])
            \<and> effects t = effects s @
                [EmitFeedback ''error'' (''[MdsBrowser] Failed to list Drive files: '' @ e)]
            \<and> driveFiles (view t) = [])
    \<and> (getOauthClient w = Inr ()
         \<and> (getOrCreateWorkspaceFolder w = Inl e
              \<or> (\<exists>folderId. getOrCreateWorkspaceFolder w = Inr folderId
                     \<and> files_list w folderId = Inl e)) \<longrightarrow>
            listFiles w = (Inr [], [(''Failed to list files from Drive'', e)])
            \<and> effects t = effects s
            \<and> driveFiles (view t) = [])
    \<and> \<not> isDriveLoading (view t) \<and> pendingLists t = 0 \<and> fetchCount t = fetchCount s
    \<and> (driveFiles (view t) = [] \<and> fetchCount u = fetchCount t
         \<and> viewMode (view u) = Local \<and> isToggleKey k \<longrightarrow>
          effects (step lf u (KeyPress k)) = effects u @ [ListFiles]
          \<and> fetchCount (step lf u (KeyPress k)) = Suc (fetchCount t)
          \<and> isDriveLoading (view (step lf u (KeyPress k))))"
proof -
  have r: "loadingInv s \<and> pendingLists s = 1 \<and> driveFiles (view s) = []"
    using assms(1,2) by (rule pending_reachable)
  have it: "loadingInv t" unfolding assms(3) using r by (simp add: step_loadingInv)
  have a: "getOauthClient w = Inl e \<longrightarrow>
            listFiles w = (Inl e, [])
            \<and> effects t = effects s @
                [EmitFeedback ''error'' (''[MdsBrowser] Failed to list Drive files: '' @ e)]
            \<and> driveFiles (view t) = []"
  proof (intro impI)
    assume c: "getOauthClient w = Inl e"
    then have l: "listFiles w = (Inl e, [])" by (simp add: listFiles_def getDriveClient_def)
    then have "listFilesEvent w = ListFilesRejected e" by (simp add: listFilesEvent_def)
    then show "listFiles w = (Inl e, [])
            \<and> effects t = effects s @
                [EmitFeedback ''error'' (''[MdsBrowser] Failed to list Drive files: '' @ e)]
            \<and> driveFiles (view t) = []"
      using r l by (simp add: assms(3))
  qed
  have b: "getOauthClient w = Inr ()
         \<and> (getOrCreateWorkspaceFolder w = Inl e
              \<or> (\<exists>folderId. getOrCreateWorkspaceFolder w = Inr folderId
                     \<and> files_list w folderId = Inl e)) \<longrightarrow>
            listFiles w = (Inr [], [(''Failed to list files from Drive'', e)])
            \<and> effects t = effects s
            \<and> driveFiles (view t) = []"
  proof (intro impI)
    assume c: "getOauthClient w = Inr ()
         \<and> (getOrCreateWorkspaceFolder w = Inl e
              \<or> (\<exists>folderId. getOrCreateWorkspaceFolder w = Inr folderId
                     \<and> files_list w folderId = Inl e))"
    then have l: "listFiles w = (Inr [], [(''Failed to list files from Drive'', e)])"
      by (intro listFiles_swallowed) simp_all
    then have "listFilesEvent w = ListFilesResolved []" by (simp add: listFilesEvent_def)
    then show "listFiles w = (Inr [], [(''Failed to list files from Drive'', e)])
            \<and> effects t = effects s
            \<and> driveFiles (view t) = []"
      using r l by (simp add: assms(3))
  qed
  have c: "\<not> isDriveLoading (view t) \<and> pendingLists t = 0 \<and> fetchCount t = fetchCount s"
    using listFilesEvent_cases [of w] r by (auto simp: assms(3) fetchCount_def)
  have d: "driveFiles (view t) = [] \<and> fetchCount u = fetchCount t
         \<and> viewMode (view u) = Local \<and> isToggleKey k \<longrightarrow>
          effects (step lf u (KeyPress k)) = effects u @ [ListFiles]
          \<and> fetchCount (step lf u (KeyPress k)) = Suc (fetchCount t)
          \<and> isDriveLoading (view (step lf u (KeyPress k)))"
  proof (intro impI)
    assume h: "driveFiles (view t) = [] \<and> fetchCount u = fetchCount t
         \<and> viewMode (view u) = Local \<and> isToggleKey k"
    have p: "pendingLists t = 0" using c by simp
    show "effects (step lf u (KeyPress k)) = effects u @ [ListFiles]
          \<and> fetchCount (step lf u (KeyPress k)) = Suc (fetchCount t)
          \<and> isDriveLoading (view (step lf u (KeyPress k)))"
      using h by (intro retry_after_empty [OF it _ p assms(4)]) simp_all
  qed
  show ?thesis using a b c d by blast
qed

theorem list_failure_feedback_and_retry_witness:
  "0 < pendingLists (run [] initialSession
        [KeyPress \<lparr>name = ''i'', matched = [IMPORT_FROM_DRIVE]\<rparr>])
   \<and> effects (step [] (run [] initialSession
        [KeyPress \<lparr>name = ''i'', matched = [IMPORT_FROM_DRIVE]\<rparr>])
        (listFilesEvent
          \<lparr>getOauthClient = Inl ''no token'', getOrCreateWorkspaceFolder = Inr ''f1'',
           files_list = (\<lambda>q. Inr None), files_get = (\<lambda>i. Inr ''text''),
           getGlobalGeminiDir = ''/home/u/.gemini'', cwd = ''/work'',
           join = (\<lambda>a b. a @ ''/'' @ b), mkdirError = (\<lambda>p. None),
           writeFileError = (\<lambda>p. None)\<rparr>))
      = [ListFiles, EmitFeedback ''error'' ''[MdsBrowser] Failed to list Drive files: no token'']
   \<and> viewMode (view (run [] (step [] (run [] initialSession
        [KeyPress \<lparr>name = ''i'', matched = [IMPORT_FROM_DRIVE]\<rparr>])
        (listFilesEvent
          \<lparr>getOauthClient = Inl ''no token'', getOrCreateWorkspaceFolder = Inr ''f1'',
           files_list = (\<lambda>q. Inr None), files_get = (\<lambda>i. Inr ''text''),
           getGlobalGeminiDir = ''/home/u/.gemini'', cwd = ''/work'',
           join = (\<lambda>a b. a @ ''/'' @ b), mkdirError = (\<lambda>p. None),
           writeFileError = (\<lambda>p. None)\<rparr>))
        (map KeyPress [\<lparr>name = ''up'', matched = [MOVE_UP]\<rparr>,
                       \<lparr>name = ''i'', matched = [IMPORT_FROM_DRIVE]\<rparr>]))) = Local
   \<and> effects (step [] (run [] (step [] (run [] initialSession
        [KeyPress \<lparr>name = ''i'', matched = [IMPORT_FROM_DRIVE]\<rparr>])
        (listFilesEvent
          \<lparr>getOauthClient = Inl ''no token'', getOrCreateWorkspaceFolder = Inr ''f1'',
           files_list = (\<lambda>q. Inr None), files_get = (\<lambda>i. Inr ''text''),
           getGlobalGeminiDir = ''/home/u/.gemini'', cwd = ''/work'',
           join = (\<lambda>a b. a @ ''/'' @ b), mkdirError = (\<lambda>p. None),
           writeFileError = (\<lambda>p. None)\<rparr>))
        (map KeyPress [\<lparr>name = ''up'', matched = [MOVE_UP]\<rparr>,
                       \<lparr>name = ''i'', matched = [IMPORT_FROM_DRIVE]\<rparr>]))
        (KeyPress \<lparr>name = ''i'', matched = [IMPORT_FROM_DRIVE]\<rparr>))
      = [ListFiles, EmitFeedback ''error'' ''[MdsBrowser] Failed to list Drive files: no token'',
         ListFiles]
   \<and> listFiles
          \<lparr>getOauthClient = Inr (), getOrCreateWorkspaceFolder = Inl ''quota'',
           files_list = (\<lambda>q. Inr None), files_get = (\<lambda>i. Inr ''text''),
           getGlobalGeminiDir = ''/home/u/.gemini'', cwd = ''/work'',
           join = (\<lambda>a b. a @ ''/'' @ b), mkdirError = (\<lambda>p. None),
           writeFileError = (\<lambda>p. None)\<rparr>
      = (Inr [], [(''Failed to list files from Drive'', ''quota'')])
   \<and> effects (step [] (run [] initialSession
        [KeyPress \<lparr>name = ''i'', matched = [IMPORT_FROM_DRIVE]\<rparr>])
        (listFilesEvent
          \<lparr>getOauthClient = Inr (), getOrCreateWorkspaceFolder = Inl ''quota'',
           files_list = (\<lambda>q. Inr None), files_get = (\<lambda>i. Inr ''text''),
           getGlobalGeminiDir = ''/home/u/.gemini'', cwd = ''/work'',
           join = (\<lambda>a b. a @ ''/'' @ b), mkdirError = (\<lambda>p. None),
           writeFileError = (\<lambda>p. None)\<rparr>))
      = [ListFiles]"
  using list_failure_feedback_and_retry [OF refl _ refl refl, where lf = "[]"
      and events = "[KeyPress \<lparr>name = ''i'', matched = [IMPORT_FROM_DRIVE]\<rparr>]"
      and e = "''no token''"
      and ks = "[\<lparr>name = ''up'', matched = [MOVE_UP]\<rparr>,
                 \<lparr>name = ''i'', matched = [IMPORT_FROM_DRIVE]\<rparr>]"
      and k = "\<lparr>name = ''i'', matched = [IMPORT_FROM_DRIVE]\<rparr>"
      and w = "\<lparr>getOauthClient = Inl ''no token'', getOrCreateWorkspaceFolder = Inr ''f1'',
           files_list = (\<lambda>q. Inr None), files_get = (\<lambda>i. Inr ''text''),
           getGlobalGeminiDir = ''/home/u/.gemini'', cwd = ''/work'',
           join = (\<lambda>a b. a @ ''/'' @ b), mkdirError = (\<lambda>p. None),
           writeFileError = (\<lambda>p. None)\<rparr>"]
    list_failure_feedback_and_retry [OF refl _ refl refl, where lf = "[]"
      and events = "[KeyPress \<lparr>name = ''i'', matched = [IMPORT_FROM_DRIVE]\<rparr>]"
      and e = "''quota''" and ks = "[]"
      and k = "\<lparr>name = ''i'', matched = [IMPORT_FROM_DRIVE]\<rparr>"
      and w = "\<lparr>getOauthClient = Inr (), getOrCreateWorkspaceFolder = Inl ''quota'',
           files_list = (\<lambda>q. Inr None), files_get = (\<lambda>i. Inr ''text''),
           getGlobalGeminiDir = ''/home/u/.gemini'', cwd = ''/work'',
           join = (\<lambda>a b. a @ ''/'' @ b), mkdirError = (\<lambda>p. None),
           writeFileError = (\<lambda>p. None)\<rparr>"]
  by (simp add: run_def initialSession_def handleKey_def isToggleKey_def keyMatchers_def
      driveEffect_def fetchCount_def files_def at_def Let_def listFilesEvent_def listFiles_def
      getDriveClient_def)

text \<open>
  The claim as first stated, that every failure of the remote list fetch emits
  one error feedback event, fails when \<open>files.list\<close> fails: \<open>listFiles\<close> logs
  the error and resolves with the empty list, and the effects of the session
  after the promise has settled are the one \<open>listFiles\<close> call, with no feedback
  event.
\<close>

theorem list_failure_without_feedback_counterexample:
  "listFiles
      \<lparr>getOauthClient = Inr (), getOrCreateWorkspaceFolder = Inr ''f1'',
       files_list = (\<lambda>q. Inl ''network down''), files_get = (\<lambda>i. Inr ''text''),
       getGlobalGeminiDir = ''/home/u/.gemini'', cwd = ''/work'',
       join = (\<lambda>a b. a @ ''/'' @ b), mkdirError = (\<lambda>p. None),
       writeFileError = (\<lambda>p. None)\<rparr>
     = (Inr [], [(''Failed to list files from Drive'', ''network down'')])
   \<and> pendingLists (run [] initialSession
        [KeyPress \<lparr>name = ''i'', matched = [IMPORT_FROM_DRIVE]\<rparr>]) = 1
   \<and> effects (step [] (run [] initialSession
        [KeyPress \<lparr>name = ''i'', matched = [IMPORT_FROM_DRIVE]\<rparr>])
        (listFilesEvent
          \<lparr>getOauthClient = Inr (), getOrCreateWorkspaceFolder = Inr ''f1'',
           files_list = (\<lambda>q. Inl ''network down''), files_get = (\<lambda>i. Inr ''text''),
           getGlobalGeminiDir = ''/home/u/.gemini'', cwd = ''/work'',
           join = (\<lambda>a b. a @ ''/'' @ b), mkdirError = (\<lambda>p. None),
           writeFileError = (\<lambda>p. None)\<rparr>))
      = [ListFiles]"
  by (simp add: run_def initialSession_def handleKey_def keyMatchers_def
      driveEffect_def files_def at_def Let_def listFilesEvent_def listFiles_def
      getDriveClient_def)

end
